theory Spec2Isabelle
  imports Complex_Main "HOL-Library.Multiset" "HOL-Library.Log_Nat"
begin

section \<open>Data model of linear\_assignment.cpp\<close>

text \<open>
  The file \<^verbatim>\<open>src/linear_assignment.cpp\<close> holds three functions:
  \<^verbatim>\<open>min_cost_matching\<close>, \<^verbatim>\<open>matching_cascade\<close> and
  \<^verbatim>\<open>gate_cost_matrix\<close>.  The Hungarian solver
  (\<^verbatim>\<open>AssignmentProblemSolver::Solve\<close>), the Kalman filter, the
  \<^verbatim>\<open>Detection\<close> class, the table \<^verbatim>\<open>chi2inv95\<close> and the
  distance metric live in other files; they enter every definition below as parameters.

  A \<^verbatim>\<open>float\<close> is modelled by the rational number it denotes (NaN and the
  infinities are left out).  Comparison and \<^verbatim>\<open>min\<close> of floats are exact, so
  they are the ones of the rationals; the only rounding operation of the file, the sum
  \<^verbatim>\<open>max_distance+1e-5\<close>, is modelled with its rounding (see \<open>fadd_eps\<close>).
\<close>

type_synonym cost = rat

text \<open>Reading or writing a vector or a matrix outside its bounds is undefined behaviour
  in C++; the model makes it the error value \<open>OutOfRange\<close>.\<close>

datatype error = OutOfRange

record Match =
  track_idx :: int
  detection_idx :: int

text \<open>The fields of \<^verbatim>\<open>Track\<close> that the file reads: \<^verbatim>\<open>mean_\<close>,
  \<^verbatim>\<open>cov_\<close> and \<^verbatim>\<open>time_since_update_\<close> (a name cannot end in an
  underscore here, so it is dropped).\<close>

record ('m, 'c) Track =
  mean :: 'm
  cov :: 'c
  time_since_update :: int

text \<open>An \<^verbatim>\<open>Eigen::MatrixXf\<close>: its two dimensions and its coefficients.\<close>

record MatrixXf =
  rows :: nat
  cols :: nat
  coeff :: "nat \<Rightarrow> nat \<Rightarrow> cost"

text \<open>The three output vectors the caller hands over by pointer.  Their contents at
  the time of the call are part of the input: the functions below take the record and
  return the updated one.\<close>

record outputs =
  matches :: "Match list"
  unmatched_tracks :: "int list"
  unmatched_detections :: "int list"

text \<open>\<^verbatim>\<open>v[i]\<close> for a \<^verbatim>\<open>size_t\<close> and for an \<^verbatim>\<open>int\<close> index.\<close>

definition at_nat :: "'a list \<Rightarrow> nat \<Rightarrow> error + 'a" where
  "at_nat v i = (if i < length v then Inr (v ! i) else Inl OutOfRange)"

definition at_int :: "'a list \<Rightarrow> int \<Rightarrow> error + 'a" where
  "at_int v i = (if 0 \<le> i \<and> i < int (length v) then Inr (v ! nat i) else Inl OutOfRange)"

text \<open>\<^verbatim>\<open>m(row, col)\<close> with an \<^verbatim>\<open>int\<close> column, as line 98 reads it.\<close>

definition coeff_at :: "MatrixXf \<Rightarrow> nat \<Rightarrow> int \<Rightarrow> error + cost" where
  "coeff_at m row col =
     (if row < rows m \<and> 0 \<le> col \<and> col < int (cols m) then Inr (coeff m row (nat col))
      else Inl OutOfRange)"

text \<open>A loop whose body may fail: the first failure ends it.\<close>

fun foldE :: "('a \<Rightarrow> 's \<Rightarrow> error + 's) \<Rightarrow> 'a list \<Rightarrow> 's \<Rightarrow> error + 's" where
  "foldE f [] s = Inr s"
| "foldE f (x # xs) s = (case f x s of Inl e \<Rightarrow> Inl e | Inr s' \<Rightarrow> foldE f xs s')"

section \<open>Single-precision arithmetic of line 51\<close>

text \<open>
  \<open>round_to p x\<close> is \<open>x\<close> rounded to the nearest number with a \<open>p\<close>-bit significand,
  ties to even (the IEEE 754 default; the exponent range is not bounded, so overflow and
  subnormal numbers are not modelled).  \<open>floor_log2 x\<close> is the binary exponent of a
  positive \<open>x\<close>.
\<close>

definition floor_log2 :: "rat \<Rightarrow> int" where
  "floor_log2 x =
     (if 1 \<le> x then int (floorlog 2 (nat \<lfloor>x\<rfloor>)) - 1
      else - int (floorlog 2 (nat (\<lceil>1 / x\<rceil> - 1))))"

definition round_even :: "rat \<Rightarrow> int" where
  "round_even q =
     (let f = \<lfloor>q\<rfloor>; r = q - of_int f
      in if r < 1 / 2 then f else if 1 / 2 < r then f + 1 else if even f then f else f + 1)"

definition round_to :: "nat \<Rightarrow> rat \<Rightarrow> rat" where
  "round_to p x =
     (if x = 0 then 0
      else let u = power_int 2 (floor_log2 \<bar>x\<bar> - int p + 1)
           in sgn x * of_int (round_even (\<bar>x\<bar> / u)) * u)"

text \<open>
  \<^verbatim>\<open>max_distance+1e-5\<close>: \<^verbatim>\<open>max_distance\<close> is a \<^verbatim>\<open>float\<close> and
  \<^verbatim>\<open>1e-5\<close> a \<^verbatim>\<open>double\<close> literal, so the sum is a \<^verbatim>\<open>double\<close>
  (53-bit significand); \<^verbatim>\<open>ArrayXf::min(const float&)\<close> then converts it to
  \<^verbatim>\<open>float\<close> (24-bit significand).
\<close>

definition fadd_eps :: "cost \<Rightarrow> cost" where
  "fadd_eps max_distance = round_to 24 (round_to 53 (max_distance + round_to 53 (1 / 100000)))"

section \<open>min\_cost\_matching\<close>

text \<open>\<^verbatim>\<open>cost_matrix.array().min(c)\<close>: every coefficient capped at \<open>c\<close>.\<close>

definition array_min :: "MatrixXf \<Rightarrow> cost \<Rightarrow> MatrixXf" where
  "array_min m c = m\<lparr>coeff := (\<lambda>i j. min (coeff m i j) c)\<rparr>"

text \<open>Lines 58--60: the coefficients in Eigen's storage order (column after column),
  copied into a \<^verbatim>\<open>vector<float>\<close>.\<close>

definition cost_matrix_vec :: "MatrixXf \<Rightarrow> cost list" where
  "cost_matrix_vec m = map (\<lambda>k. coeff m (k mod rows m) (k div rows m)) [0..<rows m * cols m]"

text \<open>
  Lines 69--74.  \<^verbatim>\<open>find(assignment.begin(), assignment.end(), i)\<close> compares
  an \<^verbatim>\<open>int\<close> entry with the \<^verbatim>\<open>size_t\<close> \<open>i\<close>: a negative entry converts
  to a value above every vector size, so it equals no \<open>i\<close>, and the test is membership
  of \<open>int i\<close>.
\<close>

definition unassigned_detections :: "int list \<Rightarrow> int list \<Rightarrow> int list" where
  "unassigned_detections assignment detection_indices =
     map (\<lambda>i. detection_indices ! i)
       (filter (\<lambda>i. int i \<notin> set assignment) [0..<length detection_indices])"

text \<open>\<^verbatim>\<open>std::find(v.begin() + p, v.end(), x)\<close> as a position; \<open>length v\<close> is
  \<^verbatim>\<open>v.end()\<close>.\<close>

definition find_from :: "int list \<Rightarrow> nat \<Rightarrow> int \<Rightarrow> nat" where
  "find_from v p x = p + length (takeWhile (\<lambda>y. y \<noteq> x) (drop p v))"

text \<open>Lines 80--84: \<open>n\<close> more rounds of ``find the next 0 after \<open>it\<close>, overwrite it
  with -1''.  Writing through \<^verbatim>\<open>end()\<close> is out of range.\<close>

fun zero_loop :: "nat \<Rightarrow> nat \<Rightarrow> int list \<Rightarrow> error + int list" where
  "zero_loop 0 it assignment = Inr assignment"
| "zero_loop (Suc n) it assignment =
     (let it' = find_from assignment (it + 1) 0
      in if it' < length assignment then zero_loop n it' (assignment[it' := - 1])
         else Inl OutOfRange)"

text \<open>Lines 76--85.\<close>

definition fix_zeros :: "int list \<Rightarrow> error + int list" where
  "fix_zeros assignment =
     (let zero_count = count_list assignment 0
      in if zero_count > 1 then zero_loop (zero_count - 1) (find_from assignment 0 0) assignment
         else Inr assignment)"

text \<open>Lines 91--108: the body of the loop over the rows.\<close>

definition row_step ::
  "cost \<Rightarrow> MatrixXf \<Rightarrow> int list \<Rightarrow> int list \<Rightarrow> int list \<Rightarrow> nat \<Rightarrow> outputs \<Rightarrow> error + outputs"
where
  "row_step max_distance cost_matrix track_indices detection_indices assignment row out =
     (let col = assignment ! row in
      if col = - 1 then
        (case at_nat track_indices row of
           Inl e \<Rightarrow> Inl e
         | Inr t \<Rightarrow> Inr (out\<lparr>unmatched_tracks := unmatched_tracks out @ [t]\<rparr>))
      else
        (case at_nat track_indices row of
           Inl e \<Rightarrow> Inl e
         | Inr t \<Rightarrow>
            (case at_int detection_indices col of
               Inl e \<Rightarrow> Inl e
             | Inr d \<Rightarrow>
                (case coeff_at cost_matrix row col of
                   Inl e \<Rightarrow> Inl e
                 | Inr c \<Rightarrow>
                    if c > max_distance then
                      Inr (out\<lparr>unmatched_tracks := unmatched_tracks out @ [t],
                               unmatched_detections := unmatched_detections out @ [d]\<rparr>)
                    else
                      Inr (out\<lparr>matches :=
                        matches out @ [\<lparr>track_idx = t, detection_idx = d\<rparr>]\<rparr>)))))"

text \<open>
  The function itself.  \<open>solve\<close> stands for \<^verbatim>\<open>aps.Solve(..., optimal)\<close>: it
  receives the cost vector, \<open>N\<close>, \<open>M\<close> and the assignment vector as constructed
  (\<open>N\<close> zeros) and returns the assignment vector it leaves behind.  \<open>out\<close> is the
  contents of the three output vectors when the function is entered.
\<close>

definition min_cost_matching ::
  "(cost list \<Rightarrow> nat \<Rightarrow> nat \<Rightarrow> int list \<Rightarrow> int list) \<Rightarrow>
   ('t list \<Rightarrow> 'd list \<Rightarrow> int list \<Rightarrow> int list \<Rightarrow> MatrixXf) \<Rightarrow>
   cost \<Rightarrow> 't list \<Rightarrow> 'd list \<Rightarrow> outputs \<Rightarrow> int list \<Rightarrow> int list \<Rightarrow> error + outputs"
where
  "min_cost_matching solve distance_metric max_distance tracks detections out
       track_indices detection_indices =
     (if length track_indices < 1 \<or> length detection_indices < 1 then
        Inr (out\<lparr>unmatched_tracks := track_indices, unmatched_detections := detection_indices\<rparr>)
      else
        let cost_matrix = distance_metric tracks detections track_indices detection_indices;
            cost_matrix = array_min cost_matrix (fadd_eps max_distance);
            N = rows cost_matrix;
            M = cols cost_matrix;
            assignment = solve (cost_matrix_vec cost_matrix) N M (replicate N 0);
            out = \<lparr>matches = [], unmatched_tracks = [],
                   unmatched_detections = unassigned_detections assignment detection_indices\<rparr>
        in case fix_zeros assignment of
             Inl e \<Rightarrow> Inl e
           | Inr assignment \<Rightarrow>
               foldE (row_step max_distance cost_matrix track_indices detection_indices assignment)
                 [0..<length assignment] out)"

section \<open>matching\_cascade\<close>

text \<open>Lines 163--167: the tracks of one level, collected by \<^verbatim>\<open>push_back\<close> while
  the iterator walks \<^verbatim>\<open>track_indices\<close>; \<^verbatim>\<open>tracks[*it]\<close> is read for
  every entry.\<close>

fun select_level ::
  "('m, 'c) Track list \<Rightarrow> int \<Rightarrow> int list \<Rightarrow> int list \<Rightarrow> error + int list"
where
  "select_level tracks level [] track_indices_l = Inr track_indices_l"
| "select_level tracks level (it # rest) track_indices_l =
     (case at_int tracks it of
        Inl e \<Rightarrow> Inl e
      | Inr t \<Rightarrow>
          if time_since_update t = 1 + level
          then select_level tracks level rest (track_indices_l @ [it])
          else select_level tracks level rest track_indices_l)"

text \<open>Lines 177--185: every match of the level is appended to \<^verbatim>\<open>*matches\<close> and
  the first occurrence of its track is erased from \<^verbatim>\<open>track_indices\<close>.\<close>

fun erase_matched :: "Match list \<Rightarrow> Match list \<Rightarrow> int list \<Rightarrow> Match list \<times> int list" where
  "erase_matched [] ms track_indices = (ms, track_indices)"
| "erase_matched (m # matches_l) ms track_indices =
     erase_matched matches_l (ms @ [m]) (remove1 (track_idx m) track_indices)"

text \<open>Lines 163--185: one level, after the test for remaining detections.  The call of
  \<open>min_cost_matching\<close> receives the fresh vectors \<^verbatim>\<open>matches_l\<close> and
  \<^verbatim>\<open>unmatched_tracks_l\<close>, the caller's \<^verbatim>\<open>unmatched_detections\<close> as output
  and a copy of it as \<open>detection_indices\<close>.\<close>

definition cascade_level ::
  "(cost list \<Rightarrow> nat \<Rightarrow> nat \<Rightarrow> int list \<Rightarrow> int list) \<Rightarrow>
   (('m, 'c) Track list \<Rightarrow> 'd list \<Rightarrow> int list \<Rightarrow> int list \<Rightarrow> MatrixXf) \<Rightarrow>
   cost \<Rightarrow> ('m, 'c) Track list \<Rightarrow> 'd list \<Rightarrow> int \<Rightarrow> outputs \<Rightarrow> int list \<Rightarrow>
   error + outputs \<times> int list"
where
  "cascade_level solve distance_metric max_distance tracks detections level out track_indices =
     (case select_level tracks level track_indices [] of
        Inl e \<Rightarrow> Inl e
      | Inr track_indices_l \<Rightarrow>
          if length track_indices_l < 1 then Inr (out, track_indices)
          else
            (case min_cost_matching solve distance_metric max_distance tracks detections
                    \<lparr>matches = [], unmatched_tracks = [],
                     unmatched_detections = unmatched_detections out\<rparr>
                    track_indices_l (unmatched_detections out) of
               Inl e \<Rightarrow> Inl e
             | Inr out_l \<Rightarrow>
                 (case erase_matched (matches out_l) (matches out) track_indices of
                    (ms, track_indices') \<Rightarrow>
                      Inr (out\<lparr>matches := ms,
                               unmatched_detections := unmatched_detections out_l\<rparr>,
                           track_indices'))))"

text \<open>Lines 158--186: the loop over the levels, with its \<^verbatim>\<open>break\<close>.\<close>

function cascade_loop ::
  "(cost list \<Rightarrow> nat \<Rightarrow> nat \<Rightarrow> int list \<Rightarrow> int list) \<Rightarrow>
   (('m, 'c) Track list \<Rightarrow> 'd list \<Rightarrow> int list \<Rightarrow> int list \<Rightarrow> MatrixXf) \<Rightarrow>
   cost \<Rightarrow> int \<Rightarrow> ('m, 'c) Track list \<Rightarrow> 'd list \<Rightarrow> int \<Rightarrow> outputs \<Rightarrow> int list \<Rightarrow>
   error + outputs \<times> int list"
where
  "cascade_loop solve distance_metric max_distance cascade_depth tracks detections level out
       track_indices =
     (if level < cascade_depth then
        if length (unmatched_detections out) < 1 then Inr (out, track_indices)
        else
          (case cascade_level solve distance_metric max_distance tracks detections level out
                  track_indices of
             Inl e \<Rightarrow> Inl e
           | Inr (out', track_indices') \<Rightarrow>
               cascade_loop solve distance_metric max_distance cascade_depth tracks detections
                 (level + 1) out' track_indices')
      else Inr (out, track_indices))"
  by pat_completeness auto
termination
  by (relation "measure (\<lambda>(solve, distance_metric, max_distance, cascade_depth, tracks,
        detections, level, out, track_indices). nat (cascade_depth - level))") auto

declare cascade_loop.simps [simp del]

text \<open>Lines 157--187.  \<open>out\<close> is what the three output vectors hold when the function
  is entered; \<^verbatim>\<open>*matches\<close> is only ever appended to.\<close>

definition matching_cascade ::
  "(cost list \<Rightarrow> nat \<Rightarrow> nat \<Rightarrow> int list \<Rightarrow> int list) \<Rightarrow>
   (('m, 'c) Track list \<Rightarrow> 'd list \<Rightarrow> int list \<Rightarrow> int list \<Rightarrow> MatrixXf) \<Rightarrow>
   cost \<Rightarrow> int \<Rightarrow> ('m, 'c) Track list \<Rightarrow> 'd list \<Rightarrow> outputs \<Rightarrow> int list \<Rightarrow> int list \<Rightarrow>
   error + outputs"
where
  "matching_cascade solve distance_metric max_distance cascade_depth tracks detections out
       track_indices detection_indices =
     (case cascade_loop solve distance_metric max_distance cascade_depth tracks detections 0
             (out\<lparr>unmatched_detections := detection_indices\<rparr>) track_indices of
        Inl e \<Rightarrow> Inl e
      | Inr (out', track_indices') \<Rightarrow> Inr (out'\<lparr>unmatched_tracks := track_indices'\<rparr>))"

section \<open>gate\_cost\_matrix\<close>

text \<open>Lines 235--241: one row per detection index (\<open>to_xyah\<close> stands for
  \<^verbatim>\<open>Detection::to_xyah\<close>, which is taken to return the four numbers of a box, as
  the copy into a row of four columns expects).\<close>

fun build_measurements :: "('d \<Rightarrow> cost list) \<Rightarrow> 'd list \<Rightarrow> int list \<Rightarrow> error + cost list list" where
  "build_measurements to_xyah detections [] = Inr []"
| "build_measurements to_xyah detections (i # rest) =
     (case at_int detections i of
        Inl e \<Rightarrow> Inl e
      | Inr d \<Rightarrow>
          (case build_measurements to_xyah detections rest of
             Inl e \<Rightarrow> Inl e
           | Inr ms \<Rightarrow> Inr (to_xyah d # ms)))"

text \<open>\<^verbatim>\<open>cost_matrix(i, j) = v\<close>.\<close>

definition set_coeff :: "MatrixXf \<Rightarrow> nat \<Rightarrow> nat \<Rightarrow> cost \<Rightarrow> error + MatrixXf" where
  "set_coeff m i j v =
     (if i < rows m \<and> j < cols m
      then Inr (m\<lparr>coeff := (\<lambda>r c. if r = i \<and> c = j then v else coeff m r c)\<rparr>)
      else Inl OutOfRange)"

text \<open>Lines 249--251: the loop over the gating distances of row \<open>i\<close>.\<close>

definition gate_row :: "cost \<Rightarrow> cost \<Rightarrow> cost list \<Rightarrow> nat \<Rightarrow> MatrixXf \<Rightarrow> error + MatrixXf" where
  "gate_row gating_threshold gated_cost gating_distance i cost_matrix =
     foldE (\<lambda>j m. if gating_distance ! j > gating_threshold then set_coeff m i j gated_cost
                   else Inr m)
       [0..<length gating_distance] cost_matrix"

text \<open>
  The function.  \<open>chi2inv95 k\<close> is the table entry \<^verbatim>\<open>chi2inv95[k]\<close> as the
  \<^verbatim>\<open>float\<close> variable \<^verbatim>\<open>gating_threshold\<close> holds it, and \<open>kf\<close> stands for
  \<^verbatim>\<open>kf.gating_distance\<close>.
\<close>

definition gate_cost_matrix ::
  "(nat \<Rightarrow> cost) \<Rightarrow> ('d \<Rightarrow> cost list) \<Rightarrow> ('m \<Rightarrow> 'c \<Rightarrow> cost list list \<Rightarrow> bool \<Rightarrow> cost list) \<Rightarrow>
   MatrixXf \<Rightarrow> ('m, 'c) Track list \<Rightarrow> 'd list \<Rightarrow> int list \<Rightarrow> int list \<Rightarrow> cost \<Rightarrow> bool \<Rightarrow>
   error + MatrixXf"
where
  "gate_cost_matrix chi2inv95 to_xyah kf cost_matrix tracks detections track_indices
       detection_indices gated_cost only_position =
     (let gating_dim = (if only_position then 2 else 4);
          gating_threshold = chi2inv95 gating_dim
      in case build_measurements to_xyah detections detection_indices of
           Inl e \<Rightarrow> Inl e
         | Inr measurements \<Rightarrow>
             foldE (\<lambda>i m. case at_int tracks (track_indices ! i) of
                             Inl e \<Rightarrow> Inl e
                           | Inr track \<Rightarrow>
                               gate_row gating_threshold gated_cost
                                 (kf (mean track) (cov track) measurements only_position) i m)
               [0..<length track_indices] cost_matrix)"

section \<open>Specification-side definitions\<close>

text \<open>
  The zero correction in the words of the specification (section 4.1): of the rows that
  hold the column 0, all but the first are corrected to -1.  \<open>seen\<close> says whether a 0
  has been passed.
\<close>

fun keep_first_zero :: "bool \<Rightarrow> int list \<Rightarrow> int list" where
  "keep_first_zero seen [] = []"
| "keep_first_zero seen (c # cs) =
     (if c = 0 then (if seen then - 1 else 0) # keep_first_zero True cs
      else c # keep_first_zero seen cs)"

text \<open>
  Modelled from the spec: the contract of the solver, whose code is not in the file.
  For \<open>N, M \<ge> 1\<close>, section 4.1 promises an assignment vector of length \<open>N\<close> with
  \<open>assignment[row] = col | -1\<close> that is one-to-one; it also says that the literal
  value 0 may stand in several rows (which is what the correction above is for), so
  only the columns above 0 are required to be pairwise different.
\<close>

definition valid_assignment :: "nat \<Rightarrow> nat \<Rightarrow> int list \<Rightarrow> bool" where
  "valid_assignment N M assignment \<longleftrightarrow>
     length assignment = N \<and>
     (\<forall>c \<in> set assignment. c = - 1 \<or> (0 \<le> c \<and> c < int M)) \<and>
     distinct (filter (\<lambda>c. 0 < c) assignment)"

definition solver_contract :: "(cost list \<Rightarrow> nat \<Rightarrow> nat \<Rightarrow> int list \<Rightarrow> int list) \<Rightarrow> bool" where
  "solver_contract solve \<longleftrightarrow>
     (\<forall>cv N M a. 1 \<le> N \<and> 1 \<le> M \<longrightarrow> valid_assignment N M (solve cv N M a))"

text \<open>
  Modelled from the spec: the contract of the cost metric (section 6): a dense matrix
  over exactly the given index subsets.
\<close>

definition metric_contract ::
  "('t list \<Rightarrow> 'd list \<Rightarrow> int list \<Rightarrow> int list \<Rightarrow> MatrixXf) \<Rightarrow> 't list \<Rightarrow> 'd list \<Rightarrow> bool"
where
  "metric_contract distance_metric tracks detections \<longleftrightarrow>
     (\<forall>ti di. rows (distance_metric tracks detections ti di) = length ti \<and>
              cols (distance_metric tracks detections ti di) = length di)"

text \<open>Every entry of an index list is a position of the collection it points into.\<close>

definition valid_indices :: "int list \<Rightarrow> 'a list \<Rightarrow> bool" where
  "valid_indices indices xs \<longleftrightarrow> (\<forall>i \<in> set indices. 0 \<le> i \<and> i < int (length xs))"

text \<open>The tracks and the detections that an output names, matched ones first.\<close>

definition output_tracks :: "outputs \<Rightarrow> int list" where
  "output_tracks out = map track_idx (matches out) @ unmatched_tracks out"

definition output_detections :: "outputs \<Rightarrow> int list" where
  "output_detections out = map detection_idx (matches out) @ unmatched_detections out"

text \<open>The classification of section 4.2 as one expression: what the loop over the rows
  leaves in the three vectors, given the corrected assignment and the detections of the
  columns no row was assigned to.\<close>

definition classify :: "cost \<Rightarrow> MatrixXf \<Rightarrow> int list \<Rightarrow> int list \<Rightarrow> int list \<Rightarrow> int list \<Rightarrow> outputs" where
  "classify max_distance cost_matrix track_indices detection_indices assignment unassigned =
     \<lparr>matches =
        map (\<lambda>r. \<lparr>track_idx = track_indices ! r, detection_idx = detection_indices ! nat (assignment ! r)\<rparr>)
          (filter (\<lambda>r. assignment ! r \<noteq> - 1 \<and> \<not> max_distance < coeff cost_matrix r (nat (assignment ! r)))
             [0..<length assignment]),
      unmatched_tracks =
        map (\<lambda>r. track_indices ! r)
          (filter (\<lambda>r. assignment ! r = - 1 \<or> max_distance < coeff cost_matrix r (nat (assignment ! r)))
             [0..<length assignment]),
      unmatched_detections = unassigned @
        map (\<lambda>r. detection_indices ! nat (assignment ! r))
          (filter (\<lambda>r. assignment ! r \<noteq> - 1 \<and> max_distance < coeff cost_matrix r (nat (assignment ! r)))
             [0..<length assignment])\<rparr>"

text \<open>
  The cascade in the words of the specification (section 4.4).  For each level of the
  list in turn: stop when no unmatched detection remains; select the entries of the
  working track list whose \<open>time_since_update\<close> is \<open>level + 1\<close>, and go on to the next
  level when there is none; otherwise run one single-pass matching of that subset against
  the unmatched detections, append its matches to the running total, remove the matched
  tracks from the working list and carry its leftover detections forward.
\<close>

fun cascade_rounds ::
  "(cost list \<Rightarrow> nat \<Rightarrow> nat \<Rightarrow> int list \<Rightarrow> int list) \<Rightarrow>
   (('m, 'c) Track list \<Rightarrow> 'd list \<Rightarrow> int list \<Rightarrow> int list \<Rightarrow> MatrixXf) \<Rightarrow>
   cost \<Rightarrow> ('m, 'c) Track list \<Rightarrow> 'd list \<Rightarrow> int list \<Rightarrow> Match list \<Rightarrow> int list \<Rightarrow> int list \<Rightarrow>
   error + Match list \<times> int list \<times> int list"
where
  "cascade_rounds solve distance_metric max_distance tracks detections [] running working
       unmatched = Inr (running, working, unmatched)"
| "cascade_rounds solve distance_metric max_distance tracks detections (level # levels) running
       working unmatched =
     (if unmatched = [] then Inr (running, working, unmatched)
      else
        let subset = filter (\<lambda>i. time_since_update (tracks ! nat i) = level + 1) working
        in if subset = [] then
             cascade_rounds solve distance_metric max_distance tracks detections levels running
               working unmatched
           else
             (case min_cost_matching solve distance_metric max_distance tracks detections
                     \<lparr>matches = [], unmatched_tracks = [], unmatched_detections = []\<rparr>
                     subset unmatched of
                Inl e \<Rightarrow> Inl e
              | Inr result \<Rightarrow>
                  cascade_rounds solve distance_metric max_distance tracks detections levels
                    (running @ matches result)
                    (filter (\<lambda>i. i \<notin> track_idx ` set (matches result)) working)
                    (unmatched_detections result)))"

text \<open>
  For \<open>gate_cost_matrix\<close>: the measurement rows of the detection indices, the gating
  distances the filter returns for row \<open>i\<close>, the matrix with every entry of the first
  \<open>k\<close> rows overwritten whose gating distance exceeds the threshold, and the condition
  that each such entry lies inside the matrix.
\<close>

definition measurements_of :: "('d \<Rightarrow> cost list) \<Rightarrow> 'd list \<Rightarrow> int list \<Rightarrow> cost list list" where
  "measurements_of to_xyah detections detection_indices =
     map (\<lambda>i. to_xyah (detections ! nat i)) detection_indices"

definition gating_distances ::
  "('m \<Rightarrow> 'c \<Rightarrow> cost list list \<Rightarrow> bool \<Rightarrow> cost list) \<Rightarrow> ('m, 'c) Track list \<Rightarrow> int list \<Rightarrow>
   cost list list \<Rightarrow> bool \<Rightarrow> nat \<Rightarrow> cost list"
where
  "gating_distances kf tracks track_indices measurements only_position i =
     kf (mean (tracks ! nat (track_indices ! i))) (cov (tracks ! nat (track_indices ! i)))
        measurements only_position"

definition gated :: "cost \<Rightarrow> cost \<Rightarrow> (nat \<Rightarrow> cost list) \<Rightarrow> nat \<Rightarrow> MatrixXf \<Rightarrow> MatrixXf" where
  "gated threshold gated_cost gds k m =
     m\<lparr>coeff := (\<lambda>r c. if r < k \<and> c < length (gds r) \<and> threshold < gds r ! c then gated_cost
                        else coeff m r c)\<rparr>"

definition writes_in_bounds :: "cost \<Rightarrow> (nat \<Rightarrow> cost list) \<Rightarrow> nat \<Rightarrow> MatrixXf \<Rightarrow> bool" where
  "writes_in_bounds threshold gds k m \<longleftrightarrow>
     (\<forall>i<k. \<forall>j<length (gds i). threshold < gds i ! j \<longrightarrow> i < rows m \<and> j < cols m)"

section \<open>Collaborators used in the examples\<close>

text \<open>
  Two solvers that meet the contract: one gives row \<open>r\<close> the column \<open>r\<close> while columns
  last and -1 afterwards; the other leaves the 0 the vector was constructed with in the
  rows it does not assign.  \<open>const_metric c\<close> is the metric whose every cost is \<open>c\<close>,
  and \<open>short_metric\<close> one that returns a 1 x 1 matrix whatever it is asked.
\<close>

definition example_solver :: "cost list \<Rightarrow> nat \<Rightarrow> nat \<Rightarrow> int list \<Rightarrow> int list" where
  "example_solver cv N M a = map (\<lambda>r. if r < M then int r else - 1) [0..<N]"


definition const_metric :: "cost \<Rightarrow> 't list \<Rightarrow> 'd list \<Rightarrow> int list \<Rightarrow> int list \<Rightarrow> MatrixXf" where
  "const_metric c tracks detections track_indices detection_indices =
     \<lparr>rows = length track_indices, cols = length detection_indices, coeff = (\<lambda>i j. c)\<rparr>"

definition short_metric :: "'t list \<Rightarrow> 'd list \<Rightarrow> int list \<Rightarrow> int list \<Rightarrow> MatrixXf" where
  "short_metric tracks detections track_indices detection_indices =
     \<lparr>rows = 1, cols = 1, coeff = (\<lambda>i j. 0)\<rparr>"

text \<open>A threshold table with the 95% quantiles for 2 and 4 degrees of freedom, and a
  stand-in for the filter that returns, for each measurement, the distance of its first
  coordinate from the mean.\<close>

definition example_chi2inv95 :: "nat \<Rightarrow> cost" where
  "example_chi2inv95 k = (if k = 2 then 59915 / 10000 else 94877 / 10000)"

definition example_gating_distance :: "cost \<Rightarrow> unit \<Rightarrow> cost list list \<Rightarrow> bool \<Rightarrow> cost list" where
  "example_gating_distance m c measurements only_position = map (\<lambda>x. \<bar>hd x - m\<bar>) measurements"

section \<open>Loops that may fail\<close>

lemma foldE_append:
  "foldE f (xs @ ys) s = (case foldE f xs s of Inl e \<Rightarrow> Inl e | Inr s' \<Rightarrow> foldE f ys s')"
  by (induction xs arbitrary: s) (auto split: sum.splits)

section \<open>The zero correction\<close>

lemma keep_first_zero_no_zero: "0 \<notin> set cs \<Longrightarrow> keep_first_zero seen cs = cs"
  by (induction cs arbitrary: seen) auto

lemma keep_first_zero_append:
  "0 \<notin> set pre \<Longrightarrow> keep_first_zero seen (pre @ cs) = pre @ keep_first_zero seen cs"
  by (induction pre arbitrary: seen) auto

lemma count_list_0_iff: "count_list xs x = 0 \<longleftrightarrow> x \<notin> set xs"
  by (induction xs) auto

lemma split_first: 
  assumes "x \<in> set xs"
  shows "\<exists>pre suf. xs = pre @ x # suf \<and> x \<notin> set pre \<and> pre = takeWhile (\<lambda>y. y \<noteq> x) xs"
proof -
  have "xs = takeWhile (\<lambda>y. y \<noteq> x) xs @ dropWhile (\<lambda>y. y \<noteq> x) xs" by simp
  moreover have "dropWhile (\<lambda>y. y \<noteq> x) xs \<noteq> []" using assms by (simp add: dropWhile_eq_Nil_conv) 
  moreover have "hd (dropWhile (\<lambda>y. y \<noteq> x) xs) = x" using assms hd_dropWhile[of "\<lambda>y. y \<noteq> x" xs] calculation(2) by auto
  ultimately have "xs = takeWhile (\<lambda>y. y \<noteq> x) xs @ x # tl (dropWhile (\<lambda>y. y \<noteq> x) xs)"
    by (metis list.collapse)
  moreover have "x \<notin> set (takeWhile (\<lambda>y. y \<noteq> x) xs)" by (auto dest: set_takeWhileD)
  ultimately show ?thesis by blast
qed

lemma takeWhile_first: "x \<notin> set s1 \<Longrightarrow> takeWhile (\<lambda>y. y \<noteq> x) (s1 @ x # s2) = s1"
  by (induction s1) auto

lemma find_from_split:
  "x \<notin> set s1 \<Longrightarrow> find_from (pre @ s1 @ x # s2) (length pre) x = length pre + length s1"
  by (simp add: find_from_def takeWhile_first)

lemma zero_loop_spec:
  "count_list suf 0 = n \<Longrightarrow>
   zero_loop n (length pre) (pre @ x # suf) = Inr (pre @ x # keep_first_zero True suf)"
proof (induction n arbitrary: pre x suf)
  case 0
  then have "0 \<notin> set suf" by (simp add: count_list_0_iff)
  then show ?case by (simp add: keep_first_zero_no_zero)
next
  case (Suc n)
  then have "0 \<in> set suf" using count_list_0_iff[of suf 0] by auto
  then obtain s1 s2 where suf: "suf = s1 @ 0 # s2" and s1: "0 \<notin> set s1"
    using split_first[of 0 suf] by blast
  have cnt: "count_list s2 0 = n" using Suc.prems s1 by (simp add: suf count_list_0_iff)
  have ff: "find_from (pre @ x # suf) (length pre + 1) 0 = length pre + 1 + length s1"
    using find_from_split[of 0 s1 "pre @ [x]" s2] s1 by (simp add: suf)
  have upd: "(pre @ x # suf)[length pre + 1 + length s1 := - 1] = (pre @ x # s1) @ (- 1) # s2"
    by (simp add: suf list_update_append)
  have "zero_loop (Suc n) (length pre) (pre @ x # suf)
      = zero_loop n (length (pre @ x # s1)) ((pre @ x # s1) @ (- 1) # s2)"
    using ff upd by (simp add: Let_def suf)
  also have "\<dots> = Inr ((pre @ x # s1) @ (- 1) # keep_first_zero True s2)"
    using Suc.IH[OF cnt] by blast
  also have "\<dots> = Inr (pre @ x # keep_first_zero True suf)"
    using s1 by (simp add: suf keep_first_zero_append)
  finally show ?case .
qed

lemma fix_zeros_spec: "fix_zeros a = Inr (keep_first_zero False a)"
proof (cases "0 \<in> set a")
  case False
  then show ?thesis by (simp add: fix_zeros_def keep_first_zero_no_zero count_list_0_iff)
next
  case True
  then obtain pre suf where a: "a = pre @ 0 # suf" and pre: "0 \<notin> set pre"
    using split_first[of 0 a] by blast
  have k: "keep_first_zero False a = pre @ 0 # keep_first_zero True suf"
    using pre by (simp add: a keep_first_zero_append)
  have cnt: "count_list a 0 = Suc (count_list suf 0)"
    using pre by (simp add: a count_list_0_iff)
  have ff: "find_from a 0 0 = length pre"
    using find_from_split[of 0 pre "[]" suf] pre by (simp add: a)
  show ?thesis
  proof (cases "count_list suf 0 = 0")
    case True
    then have "keep_first_zero True suf = suf"
      by (simp add: keep_first_zero_no_zero count_list_0_iff)
    then have "keep_first_zero False a = a" using k a by simp
    then show ?thesis using cnt True by (simp add: fix_zeros_def)
  next
    case False
    then show ?thesis using cnt k ff zero_loop_spec[of suf "count_list suf 0" pre 0]
      by (simp add: fix_zeros_def a)
  qed
qed

section \<open>The loop over the rows\<close>

lemma length_keep_first_zero: "length (keep_first_zero seen cs) = length cs"
  by (induction cs arbitrary: seen) auto

lemma set_keep_first_zero: "set (keep_first_zero seen cs) \<subseteq> insert (- 1) (set cs)"
  by (induction cs arbitrary: seen) auto

lemma keep_first_zero_True_no_zero: "0 \<notin> set (keep_first_zero True cs)"
  by (induction cs) auto

lemma filter_keep_first_zero_True:
  "filter (\<lambda>c. c \<noteq> - 1) (keep_first_zero True cs) = filter (\<lambda>c. c \<noteq> - 1 \<and> c \<noteq> 0) cs"
  by (induction cs) auto

lemma filter_keep_first_zero_False:
  "filter (\<lambda>c. c \<noteq> - 1) (keep_first_zero False cs) =
     (if 0 \<in> set cs then
        filter (\<lambda>c. c \<noteq> - 1 \<and> c \<noteq> 0) (takeWhile (\<lambda>c. c \<noteq> 0) cs) @ 0 #
        filter (\<lambda>c. c \<noteq> - 1 \<and> c \<noteq> 0) (dropWhile (\<lambda>c. c \<noteq> 0) cs)
      else filter (\<lambda>c. c \<noteq> - 1) cs)"
  by (induction cs) (auto simp: filter_keep_first_zero_True)

lemma foldE_row_step:
  assumes "\<forall>r \<in> set rs. r < length T \<and>
             (a ! r \<noteq> - 1 \<longrightarrow> 0 \<le> a ! r \<and> a ! r < int (length D) \<and> r < rows cm \<and> a ! r < int (cols cm))"
  shows "foldE (row_step md cm T D a) rs out =
     Inr \<lparr>matches = matches out @
             map (\<lambda>r. \<lparr>track_idx = T ! r, detection_idx = D ! nat (a ! r)\<rparr>)
               (filter (\<lambda>r. a ! r \<noteq> - 1 \<and> \<not> md < coeff cm r (nat (a ! r))) rs),
          unmatched_tracks = unmatched_tracks out @
             map (\<lambda>r. T ! r) (filter (\<lambda>r. a ! r = - 1 \<or> md < coeff cm r (nat (a ! r))) rs),
          unmatched_detections = unmatched_detections out @
             map (\<lambda>r. D ! nat (a ! r))
               (filter (\<lambda>r. a ! r \<noteq> - 1 \<and> md < coeff cm r (nat (a ! r))) rs)\<rparr>"
  using assms
proof (induction rs arbitrary: out)
  case Nil
  show ?case by simp
next
  case (Cons r rs)
  have r: "r < length T"
    and ok: "a ! r \<noteq> - 1 \<Longrightarrow> 0 \<le> a ! r \<and> a ! r < int (length D) \<and> r < rows cm \<and> a ! r < int (cols cm)"
    using Cons.prems by auto
  have rest: "\<forall>r \<in> set rs. r < length T \<and>
             (a ! r \<noteq> - 1 \<longrightarrow> 0 \<le> a ! r \<and> a ! r < int (length D) \<and> r < rows cm \<and> a ! r < int (cols cm))"
    using Cons.prems by auto
  show ?case
  proof (cases "a ! r = - 1")
    case True
    then have "row_step md cm T D a r out = Inr (out\<lparr>unmatched_tracks := unmatched_tracks out @ [T ! r]\<rparr>)"
      using r by (simp add: row_step_def at_nat_def)
    then show ?thesis using True Cons.IH[OF rest] by simp
  next
    case False
    note ok' = ok[OF False]
    show ?thesis
    proof (cases "md < coeff cm r (nat (a ! r))")
      case True
      then have "row_step md cm T D a r out =
          Inr (out\<lparr>unmatched_tracks := unmatched_tracks out @ [T ! r],
                   unmatched_detections := unmatched_detections out @ [D ! nat (a ! r)]\<rparr>)"
        using r ok' False by (simp add: row_step_def at_nat_def at_int_def coeff_at_def)
      then show ?thesis using True False Cons.IH[OF rest] by simp
    next
      case nf: False
      then have "row_step md cm T D a r out =
          Inr (out\<lparr>matches := matches out @ [\<lparr>track_idx = T ! r, detection_idx = D ! nat (a ! r)\<rparr>]\<rparr>)"
        using r ok' False by (simp add: row_step_def at_nat_def at_int_def coeff_at_def)
      then show ?thesis using nf False Cons.IH[OF rest] by simp
    qed
  qed
qed

lemma valid_assignment_keep:
  assumes "valid_assignment N M a"
  shows "length (keep_first_zero False a) = N"
    and "\<forall>c \<in> set (keep_first_zero False a). c = - 1 \<or> (0 \<le> c \<and> c < int M)"
proof -
  show "length (keep_first_zero False a) = N"
    using assms by (simp add: valid_assignment_def length_keep_first_zero)
  show "\<forall>c \<in> set (keep_first_zero False a). c = - 1 \<or> (0 \<le> c \<and> c < int M)"
    using assms set_keep_first_zero[of False a] unfolding valid_assignment_def by blast
qed

lemma min_cost_matching_classify:
  assumes ne: "track_indices \<noteq> []" "detection_indices \<noteq> []"
    and cm: "cm = array_min (distance_metric tracks detections track_indices detection_indices) (fadd_eps max_distance)"
    and a: "a = solve (cost_matrix_vec cm) (rows cm) (cols cm) (replicate (rows cm) 0)"
    and va: "valid_assignment (rows cm) (cols cm) a"
    and dims: "rows cm \<le> length track_indices" "cols cm \<le> length detection_indices"
  shows "min_cost_matching solve distance_metric max_distance tracks detections out
           track_indices detection_indices =
         Inr (classify max_distance cm track_indices detection_indices (keep_first_zero False a)
                (unassigned_detections a detection_indices))"
proof -
  let ?a' = "keep_first_zero False a"
  have len: "length ?a' = rows cm" and ent: "\<forall>c \<in> set ?a'. c = - 1 \<or> (0 \<le> c \<and> c < int (cols cm))"
    using valid_assignment_keep[OF va] by auto
  have pre: "\<forall>r \<in> set [0..<length ?a']. r < length track_indices \<and>
             (?a' ! r \<noteq> - 1 \<longrightarrow> 0 \<le> ?a' ! r \<and> ?a' ! r < int (length detection_indices) \<and> r < rows cm \<and> ?a' ! r < int (cols cm))"
  proof
    fix r assume "r \<in> set [0..<length ?a']"
    then have r: "r < rows cm" using len by simp
    then have "?a' ! r \<in> set ?a'" using len by simp
    then have "?a' ! r = - 1 \<or> (0 \<le> ?a' ! r \<and> ?a' ! r < int (cols cm))" using ent by blast
    then show "r < length track_indices \<and>
             (?a' ! r \<noteq> - 1 \<longrightarrow> 0 \<le> ?a' ! r \<and> ?a' ! r < int (length detection_indices) \<and> r < rows cm \<and> ?a' ! r < int (cols cm))"
      using r dims by auto
  qed
  have "min_cost_matching solve distance_metric max_distance tracks detections out
           track_indices detection_indices =
        foldE (row_step max_distance cm track_indices detection_indices ?a') [0..<length ?a']
          \<lparr>matches = [], unmatched_tracks = [], unmatched_detections = unassigned_detections a detection_indices\<rparr>"
    using ne cm a by (simp add: min_cost_matching_def Let_def fix_zeros_spec array_min_def)
  also have "\<dots> = Inr (classify max_distance cm track_indices detection_indices ?a'
                (unassigned_detections a detection_indices))"
    unfolding classify_def by (subst foldE_row_step[OF pre]) simp
  finally show ?thesis .
qed

lemma mset_map_filter_split:
  "mset (map g (filter (\<lambda>r. A r \<and> \<not> B r) rs)) + mset (map g (filter (\<lambda>r. A r \<and> B r) rs)) =
   mset (map g (filter A rs))"
  by (induction rs) auto

lemma mset_map_filter_split2:
  "mset (map g (filter (\<lambda>r. A r \<and> \<not> B r) rs)) + mset (map g (filter (\<lambda>r. \<not> A r \<or> B r) rs)) =
   mset (map g rs)"
  by (induction rs) auto

lemma classify_tracks:
  "mset (output_tracks (classify md cm T D a u)) = mset (map (\<lambda>r. T ! r) [0..<length a])"
  using mset_map_filter_split2[of "\<lambda>r. T ! r" "\<lambda>r. a ! r \<noteq> - 1" "\<lambda>r. md < coeff cm r (nat (a ! r))" "[0..<length a]"]
  by (simp add: output_tracks_def classify_def comp_def)

lemma map_nth_take: "n \<le> length xs \<Longrightarrow> map (\<lambda>r. xs ! r) [0..<n] = take n xs"
  by (simp add: list_eq_iff_nth_eq)

lemma map_filter_nth:
  "map (\<lambda>r. f (xs ! r)) (filter (\<lambda>r. P (xs ! r)) [0..<length xs]) = map f (filter P xs)"
proof -
  have "map f (filter P xs) = map f (filter P (map (\<lambda>r. xs ! r) [0..<length xs]))"
    by (simp add: map_nth)
  also have "\<dots> = map (\<lambda>r. f (xs ! r)) (filter (\<lambda>r. P (xs ! r)) [0..<length xs])"
    by (simp add: filter_map comp_def)
  finally show ?thesis by simp
qed

lemma classify_detections:
  "mset (output_detections (classify md cm T D a u)) =
   mset u + mset (map (\<lambda>c. D ! nat c) (filter (\<lambda>c. c \<noteq> - 1) a))"
proof -
  have "mset (output_detections (classify md cm T D a u)) =
        mset u + mset (map (\<lambda>r. D ! nat (a ! r)) (filter (\<lambda>r. a ! r \<noteq> - 1) [0..<length a]))"
    using mset_map_filter_split[of "\<lambda>r. D ! nat (a ! r)" "\<lambda>r. a ! r \<noteq> - 1" "\<lambda>r. md < coeff cm r (nat (a ! r))" "[0..<length a]"]
    by (simp add: output_detections_def classify_def comp_def)
  then show ?thesis
    using map_filter_nth[of "\<lambda>c. D ! nat c" a "\<lambda>c. c \<noteq> - 1"] by simp
qed

section \<open>Every index is classified once\<close>

lemma set_filter_keep_True:
  "set (filter (\<lambda>c. c \<noteq> - 1) (keep_first_zero True cs)) = set cs - {- 1, 0}"
  unfolding filter_keep_first_zero_True by auto

lemma set_filter_keep_False:
  "set (filter (\<lambda>c. c \<noteq> - 1) (keep_first_zero False cs)) = set cs - {- 1}"
proof (induction cs)
  case Nil
  show ?case by simp
next
  case (Cons c cs)
  show ?case
  proof (cases "c = 0")
    case True
    have "set (filter (\<lambda>c. c \<noteq> - 1) (keep_first_zero False (c # cs))) =
          insert 0 (set (filter (\<lambda>c. c \<noteq> - 1) (keep_first_zero True cs)))"
      using True by simp
    also have "\<dots> = insert 0 (set cs - {- 1, 0})" by (simp only: set_filter_keep_True)
    also have "\<dots> = set (c # cs) - {- 1}" using True by auto
    finally show ?thesis .
  next
    case False
    have "set (filter (\<lambda>c. c \<noteq> - 1) (keep_first_zero False (c # cs))) =
          (if c = - 1 then {} else {c}) \<union> set (filter (\<lambda>c. c \<noteq> - 1) (keep_first_zero False cs))"
      using False by simp
    also have "\<dots> = (if c = - 1 then {} else {c}) \<union> (set cs - {- 1})" by (simp only: Cons.IH)
    also have "\<dots> = set (c # cs) - {- 1}" by auto
    finally show ?thesis .
  qed
qed

lemma distinct_filter_keep_True:
  assumes "distinct (filter (\<lambda>c. 0 < c) cs)" and "\<forall>c \<in> set cs. - 1 \<le> c"
  shows "distinct (filter (\<lambda>c. c \<noteq> - 1) (keep_first_zero True cs))"
proof -
  have "filter (\<lambda>c. c \<noteq> - 1 \<and> c \<noteq> 0) cs = filter (\<lambda>c. 0 < c) cs"
    using assms(2) by (intro filter_cong) auto
  then show ?thesis using assms(1) by (simp add: filter_keep_first_zero_True)
qed

lemma distinct_filter_keep_False:
  assumes "distinct (filter (\<lambda>c. 0 < c) cs)" and "\<forall>c \<in> set cs. - 1 \<le> c"
  shows "distinct (filter (\<lambda>c. c \<noteq> - 1) (keep_first_zero False cs))"
  using assms
proof (induction cs)
  case Nil
  show ?case by simp
next
  case (Cons c cs)
  have d: "distinct (filter (\<lambda>c. 0 < c) cs)" and b: "\<forall>c \<in> set cs. - 1 \<le> c"
    using Cons.prems by (auto split: if_splits)
  show ?case
  proof (cases "c = 0")
    case True
    have "0 \<notin> set (filter (\<lambda>c. c \<noteq> - 1) (keep_first_zero True cs))"
      by (simp add: keep_first_zero_True_no_zero)
    then show ?thesis using True distinct_filter_keep_True[OF d b] by simp
  next
    case False
    show ?thesis
    proof (cases "c = - 1")
      case True
      then show ?thesis using Cons.IH[OF d b] by simp
    next
      case m: False
      then have pos: "0 < c" using False Cons.prems(2) by auto
      then have "c \<notin> set cs" using Cons.prems(1) by auto
      then have "c \<notin> set (filter (\<lambda>c. c \<noteq> - 1) (keep_first_zero False cs))"
        unfolding set_filter_keep_False by simp
      then show ?thesis using False m Cons.IH[OF d b] by simp
    qed
  qed
qed

lemma mset_map_filter_compl:
  "mset (map g (filter (\<lambda>i. \<not> P i) xs)) + mset (map g (filter P xs)) = mset (map g xs)"
  by (induction xs) auto

text \<open>The detections of the unassigned columns and those of the assigned ones make up
  the whole list.\<close>

lemma detections_partition:
  assumes va: "valid_assignment N M a" and M: "M \<le> length D"
  shows "mset (unassigned_detections a D) +
         mset (map (\<lambda>c. D ! nat c) (filter (\<lambda>c. c \<noteq> - 1) (keep_first_zero False a))) = mset D"
proof -
  let ?cs = "filter (\<lambda>c. c \<noteq> - 1) (keep_first_zero False a)"
  let ?idx = "[0..<length D]"
  have ent: "\<forall>c \<in> set a. c = - 1 \<or> (0 \<le> c \<and> c < int M)"
    and dis: "distinct (filter (\<lambda>c. 0 < c) a)"
    using va by (auto simp: valid_assignment_def)
  have lb: "\<forall>c \<in> set a. - 1 \<le> c" using ent by auto
  have dcs: "distinct ?cs" by (rule distinct_filter_keep_False[OF dis lb])
  have scs: "set ?cs = set a - {- 1}" by (rule set_filter_keep_False)
  have nonneg: "\<forall>c \<in> set ?cs. 0 \<le> c" using scs ent by auto
  have "inj_on nat (set ?cs)"
  proof (rule inj_onI)
    fix x y assume x: "x \<in> set ?cs" and y: "y \<in> set ?cs" and e: "nat x = nat y"
    have "0 \<le> x" "0 \<le> y" using nonneg x y by blast+
    then show "x = y" using e by linarith
  qed
  then have d1: "distinct (map nat ?cs)" using dcs by (simp add: distinct_map)
  have s1: "set (map nat ?cs) = set (filter (\<lambda>i. int i \<in> set a) ?idx)"
  proof (intro set_eqI iffI)
    fix i assume "i \<in> set (map nat ?cs)"
    then obtain c where c: "c \<in> set a" "c \<noteq> - 1" "i = nat c" using scs by auto
    then have "0 \<le> c \<and> c < int M" using ent by auto
    then show "i \<in> set (filter (\<lambda>i. int i \<in> set a) ?idx)" using c M by auto
  next
    fix i assume "i \<in> set (filter (\<lambda>i. int i \<in> set a) ?idx)"
    then have "int i \<in> set a" by simp
    then have "int i \<in> set ?cs" using scs by auto
    then have "nat (int i) \<in> nat ` set ?cs" by (rule imageI)
    then show "i \<in> set (map nat ?cs)" by simp
  qed
  have d2: "distinct (filter (\<lambda>i. int i \<in> set a) ?idx)" by simp
  have m: "mset (map nat ?cs) = mset (filter (\<lambda>i. int i \<in> set a) ?idx)"
    by (rule iffD1[OF set_eq_iff_mset_eq_distinct[OF d1 d2] s1])
  have "mset (map (\<lambda>i. D ! i) (map nat ?cs)) = mset (map (\<lambda>i. D ! i) (filter (\<lambda>i. int i \<in> set a) ?idx))"
    using arg_cong[OF m, of "image_mset (\<lambda>i. D ! i)"] by (simp only: mset_map)
  then have e: "mset (map (\<lambda>c. D ! nat c) ?cs) = mset (map (\<lambda>i. D ! i) (filter (\<lambda>i. int i \<in> set a) ?idx))"
    by (simp only: map_map comp_def)
  have "mset (unassigned_detections a D) + mset (map (\<lambda>c. D ! nat c) ?cs) =
        mset (map (\<lambda>i. D ! i) (filter (\<lambda>i. int i \<notin> set a) ?idx)) +
        mset (map (\<lambda>i. D ! i) (filter (\<lambda>i. int i \<in> set a) ?idx))"
    by (simp only: e unassigned_detections_def)
  also have "\<dots> = mset (map (\<lambda>i. D ! i) ?idx)"
    by (rule mset_map_filter_compl)
  also have "\<dots> = mset D" by (simp add: map_nth)
  finally show ?thesis .
qed

lemma min_cost_matching_partition:
  assumes ne: "track_indices \<noteq> []" "detection_indices \<noteq> []"
    and cm: "cm = array_min (distance_metric tracks detections track_indices detection_indices) (fadd_eps max_distance)"
    and a: "a = solve (cost_matrix_vec cm) (rows cm) (cols cm) (replicate (rows cm) 0)"
    and va: "valid_assignment (rows cm) (cols cm) a"
    and dims: "rows cm \<le> length track_indices" "cols cm \<le> length detection_indices"
  shows "\<exists>r. min_cost_matching solve distance_metric max_distance tracks detections out
           track_indices detection_indices = Inr r \<and>
           mset (output_tracks r) = mset (take (rows cm) track_indices) \<and>
           mset (output_detections r) = mset detection_indices"
proof -
  let ?a' = "keep_first_zero False a"
  let ?r = "classify max_distance cm track_indices detection_indices ?a' (unassigned_detections a detection_indices)"
  have len: "length ?a' = rows cm" using valid_assignment_keep(1)[OF va] .
  have t: "mset (output_tracks ?r) = mset (take (rows cm) track_indices)"
    using dims(1) by (simp add: classify_tracks len map_nth_take)
  have d: "mset (output_detections ?r) = mset detection_indices"
    using detections_partition[OF va dims(2)] by (simp add: classify_detections)
  have e: "min_cost_matching solve distance_metric max_distance tracks detections out
           track_indices detection_indices = Inr ?r"
    by (rule min_cost_matching_classify[where distance_metric = distance_metric and tracks = tracks
          and detections = detections and solve = solve and cm = cm and a = a,
          OF ne cm a va dims])
  show ?thesis
    by (rule exI[of _ ?r]) (simp only: t d e simp_thms)
qed

section \<open>The corrected assignment\<close>



lemma classify_match:
  "m \<in> set (matches (classify md cm T D a u)) \<Longrightarrow>
   \<exists>row<length a. a ! row \<noteq> - 1 \<and> \<not> md < coeff cm row (nat (a ! row)) \<and>
      m = \<lparr>track_idx = T ! row, detection_idx = D ! nat (a ! row)\<rparr>"
  by (auto simp: classify_def)



section \<open>The output vectors on entry\<close>

text \<open>The early return of lines 42--47 writes two of the three vectors and leaves the
  third as it was; neither the metric nor the solver is consulted.\<close>

lemma min_cost_matching_short_circuit:
  "track_indices = [] \<or> detection_indices = [] \<Longrightarrow>
   min_cost_matching solve distance_metric max_distance tracks detections out
       track_indices detection_indices =
     Inr (out\<lparr>unmatched_tracks := track_indices, unmatched_detections := detection_indices\<rparr>)"
  by (auto simp: min_cost_matching_def)

text \<open>
  Claim C5.  With an empty track-index list the function returns at once, for any solver
  and any metric, with \<open>unmatched_tracks = track_indices\<close> and
  \<open>unmatched_detections = detection_indices\<close> in their order.  It does not return empty
  matches: \<^verbatim>\<open>*matches\<close> is not cleared on this path (it is on the other, line 65),
  so a pair the caller's vector held before the call is still there afterwards.
\<close>

theorem short_circuit_keeps_stale_matches:
  "min_cost_matching solve distance_metric max_distance tracks detections
     \<lparr>matches = [\<lparr>track_idx = 7, detection_idx = 7\<rparr>], unmatched_tracks = [],
      unmatched_detections = []\<rparr> [] [3, 1] =
   Inr \<lparr>matches = [\<lparr>track_idx = 7, detection_idx = 7\<rparr>], unmatched_tracks = [],
        unmatched_detections = [3, 1]\<rparr>"
  by (simp add: min_cost_matching_def)

section \<open>The threshold after rounding\<close>

lemma round_to_pos:
  assumes "0 < x" and "floor_log2 x = e" and "power_int 2 (e - int p + 1) = u"
    and "round_even (x / u) = n"
  shows "round_to p x = of_int n * u"
  using assms by (simp add: round_to_def Let_def)

lemma round_even_down: "of_int f \<le> q \<Longrightarrow> q < of_int f + 1 / 2 \<Longrightarrow> round_even q = f"
proof -
  assume a: "of_int f \<le> q" "q < of_int f + 1 / 2"
  then have "\<lfloor>q\<rfloor> = f" by (simp add: floor_eq_iff)
  then show ?thesis using a by (simp add: round_even_def Let_def)
qed

lemma round_even_up: "of_int f + 1 / 2 < q \<Longrightarrow> q < of_int f + 1 \<Longrightarrow> round_even q = f + 1"
proof -
  assume a: "of_int f + 1 / 2 < q" "q < of_int f + 1"
  then have "\<lfloor>q\<rfloor> = f" by (simp add: floor_eq_iff)
  then show ?thesis using a by (simp add: round_even_def Let_def)
qed

text \<open>The \<^verbatim>\<open>double\<close> nearest to \<open>1e-5\<close>.\<close>

lemma double_1e_5: "round_to 53 (1 / 100000) = 5902958103587057 / 590295810358705651712"
proof -
  have e: "floor_log2 (1 / 100000) = - 17" by (simp add: floor_log2_def compute_floorlog)
  have u: "power_int (2::rat) (- 17 - int 53 + 1) = 1 / 590295810358705651712"
    by (simp add: power_int_def power_divide)
  have n: "round_even (1 / 100000 / (1 / 590295810358705651712)) = 5902958103587056 + 1"
    by (rule round_even_up) simp_all
  show ?thesis using round_to_pos[OF _ e u n] by simp
qed

text \<open>At 256 the spacing of single-precision numbers is \<open>2^-15\<close>, more than twice
  \<open>1e-5\<close>: the sum rounds back to 256.  At 128 it does not.\<close>

lemma fadd_eps_256: "fadd_eps 256 = 256"
proof -
  let ?s = "256 + 5902958103587057 / 590295810358705651712 :: rat"
  have e1: "floor_log2 ?s = 8"
  proof -
    have "\<lfloor>?s\<rfloor> = 256" by (simp add: floor_eq_iff)
    then show ?thesis by (simp add: floor_log2_def compute_floorlog)
  qed
  have u1: "power_int (2::rat) (8 - int 53 + 1) = 1 / 17592186044416"
    by (simp add: power_int_def power_divide)
  have n1: "round_even (?s / (1 / 17592186044416)) = 4503599803292356"
    by (rule round_even_down) simp_all
  have s: "round_to 53 ?s = 1125899950823089 / 4398046511104"
    using round_to_pos[OF _ e1 u1 n1] by simp
  let ?d = "1125899950823089 / 4398046511104 :: rat"
  have e2: "floor_log2 ?d = 8"
  proof -
    have "\<lfloor>?d\<rfloor> = 256" by (simp add: floor_eq_iff)
    then show ?thesis by (simp add: floor_log2_def compute_floorlog)
  qed
  have u2: "power_int (2::rat) (8 - int 24 + 1) = 1 / 32768"
    by (simp add: power_int_def power_divide)
  have n2: "round_even (?d / (1 / 32768)) = 8388608"
    by (rule round_even_down) simp_all
  have "round_to 24 ?d = 256" using round_to_pos[OF _ e2 u2 n2] by simp
  then show ?thesis by (simp only: fadd_eps_def double_1e_5 s)
qed

lemma fadd_eps_128: "fadd_eps 128 = 128 + 1 / 65536"
proof -
  let ?s = "128 + 5902958103587057 / 590295810358705651712 :: rat"
  have e1: "floor_log2 ?s = 7"
  proof -
    have "\<lfloor>?s\<rfloor> = 128" by (simp add: floor_eq_iff)
    then show ?thesis by (simp add: floor_log2_def compute_floorlog)
  qed
  have u1: "power_int (2::rat) (7 - int 53 + 1) = 1 / 35184372088832"
    by (simp add: power_int_def power_divide)
  have n1: "round_even (?s / (1 / 35184372088832)) = 4503599979214216 + 1"
    by (rule round_even_up) simp_all
  have s: "round_to 53 ?s = 4503599979214217 / 35184372088832"
    using round_to_pos[OF _ e1 u1 n1] by simp
  let ?d = "4503599979214217 / 35184372088832 :: rat"
  have e2: "floor_log2 ?d = 7"
  proof -
    have "\<lfloor>?d\<rfloor> = 128" by (simp add: floor_eq_iff)
    then show ?thesis by (simp add: floor_log2_def compute_floorlog)
  qed
  have u2: "power_int (2::rat) (7 - int 24 + 1) = 1 / 65536"
    by (simp add: power_int_def power_divide)
  have n2: "round_even (?d / (1 / 65536)) = 8388608 + 1"
    by (rule round_even_up) simp_all
  have "round_to 24 ?d = 128 + 1 / 65536" using round_to_pos[OF _ e2 u2 n2] by simp
  then show ?thesis by (simp only: fadd_eps_def double_1e_5 s)
qed

text \<open>Where the sum stays above \<open>max_distance\<close> after rounding, the test of line 98
  on the capped matrix is a test of the original cost: every emitted match has an
  original cost of at most \<open>max_distance\<close>.\<close>

lemma matches_within_max_distance:
  assumes eps: "max_distance < fadd_eps max_distance"
    and ne: "track_indices \<noteq> []" "detection_indices \<noteq> []"
    and m: "m = distance_metric tracks detections track_indices detection_indices"
    and a: "a = solve (cost_matrix_vec (array_min m (fadd_eps max_distance))) (rows m) (cols m)
                  (replicate (rows m) 0)"
    and va: "valid_assignment (rows m) (cols m) a"
    and dims: "rows m \<le> length track_indices" "cols m \<le> length detection_indices"
  shows "\<exists>r. min_cost_matching solve distance_metric max_distance tracks detections out
               track_indices detection_indices = Inr r \<and>
             (\<forall>p \<in> set (matches r). \<exists>row col. row < rows m \<and> col < cols m \<and>
                 p = \<lparr>track_idx = track_indices ! row, detection_idx = detection_indices ! col\<rparr> \<and>
                 coeff m row col \<le> max_distance)"
proof -
  define cm where "cm = array_min (distance_metric tracks detections track_indices detection_indices)
                          (fadd_eps max_distance)"
  have rc: "rows cm = rows m" "cols cm = cols m" by (simp_all add: cm_def m array_min_def)
  have a': "a = solve (cost_matrix_vec cm) (rows cm) (cols cm) (replicate (rows cm) 0)"
    using a by (simp add: cm_def m array_min_def)
  have va': "valid_assignment (rows cm) (cols cm) a" using va rc by simp
  have d1: "rows cm \<le> length track_indices" and d2: "cols cm \<le> length detection_indices"
    using dims rc by simp_all
  let ?a' = "keep_first_zero False a"
  let ?r = "classify max_distance cm track_indices detection_indices ?a'
              (unassigned_detections a detection_indices)"
  have e: "min_cost_matching solve distance_metric max_distance tracks detections out
             track_indices detection_indices = Inr ?r"
    by (rule min_cost_matching_classify[where distance_metric = distance_metric and tracks = tracks
          and detections = detections and solve = solve and cm = cm and a = a,
          OF ne cm_def a' va' d1 d2])
  have len: "length ?a' = rows cm"
    and ent: "\<forall>c \<in> set ?a'. c = - 1 \<or> (0 \<le> c \<and> c < int (cols cm))"
    using valid_assignment_keep[OF va'] by auto
  have "\<exists>row col. row < rows m \<and> col < cols m \<and>
          p = \<lparr>track_idx = track_indices ! row, detection_idx = detection_indices ! col\<rparr> \<and>
          coeff m row col \<le> max_distance"
    if p: "p \<in> set (matches ?r)" for p
  proof -
    obtain row where row: "row < length ?a'" "?a' ! row \<noteq> - 1"
      and near: "\<not> max_distance < coeff cm row (nat (?a' ! row))"
      and peq: "p = \<lparr>track_idx = track_indices ! row,
                     detection_idx = detection_indices ! nat (?a' ! row)\<rparr>"
      using classify_match[OF p] by blast
    have "?a' ! row \<in> set ?a'" using row(1) by simp
    then have col: "nat (?a' ! row) < cols m" using ent row(2) rc by auto
    have "coeff cm row (nat (?a' ! row)) =
          min (coeff m row (nat (?a' ! row))) (fadd_eps max_distance)"
      by (simp add: cm_def m array_min_def)
    then have "coeff m row (nat (?a' ! row)) \<le> max_distance"
      using near eps by (simp add: min_def split: if_splits)
    moreover have "row < rows m" using row(1) len rc by simp
    ultimately show ?thesis using col peq
      by (intro exI[of _ row] exI[of _ "nat (?a' ! row)"]) simp
  qed
  then show ?thesis using e by blast
qed

text \<open>The definitions a concrete call unfolds to.\<close>

lemmas mcm_eval = min_cost_matching_def const_metric_def example_solver_def array_min_def
  cost_matrix_vec_def unassigned_detections_def fix_zeros_def row_step_def at_nat_def at_int_def
  coeff_at_def Let_def

text \<open>
  Claim C2.  No emitted match has an original cost above \<open>max_distance\<close>: line 98 tests
  the capped matrix, whose entries are at most \<^verbatim>\<open>(float)(max_distance+1e-5)\<close>.
  With \<open>max_distance = 256\<close> that cap is 256 itself, the test \<open>256 > 256\<close> fails, and
  the pair of cost 300 is emitted as a match.
\<close>

theorem match_above_max_distance:
  "coeff (const_metric 300 [t] [d] [0] [0]) 0 0 = 300 \<and>
   min_cost_matching example_solver (const_metric 300) 256 [t] [d]
     \<lparr>matches = [], unmatched_tracks = [], unmatched_detections = []\<rparr> [0] [0] =
   Inr \<lparr>matches = [\<lparr>track_idx = 0, detection_idx = 0\<rparr>], unmatched_tracks = [],
        unmatched_detections = []\<rparr>"
  by (simp add: mcm_eval fadd_eps_256)

text \<open>With 128 in place of 256 the same pair is demoted.\<close>

lemma match_above_max_distance_128:
  "min_cost_matching example_solver (const_metric 300) 128 [t] [d]
     \<lparr>matches = [], unmatched_tracks = [], unmatched_detections = []\<rparr> [0] [0] =
   Inr \<lparr>matches = [], unmatched_tracks = [0], unmatched_detections = [0]\<rparr>"
  by (simp add: mcm_eval fadd_eps_128)

text \<open>
  Claim C8.  \<open>matching_cascade\<close> sets \<^verbatim>\<open>*unmatched_detections\<close> to the input list
  (line 157) but never clears \<^verbatim>\<open>*matches\<close>: the pair the caller's vector held
  before the call is still in front of the one the call found.
\<close>

theorem cascade_keeps_stale_matches:
  "matching_cascade example_solver (const_metric 0) 1 3
     [\<lparr>mean = (), cov = (), time_since_update = 1\<rparr>] [()]
     \<lparr>matches = [\<lparr>track_idx = 7, detection_idx = 7\<rparr>], unmatched_tracks = [],
      unmatched_detections = []\<rparr> [0] [0] =
   Inr \<lparr>matches = [\<lparr>track_idx = 7, detection_idx = 7\<rparr>, \<lparr>track_idx = 0, detection_idx = 0\<rparr>],
        unmatched_tracks = [], unmatched_detections = []\<rparr>"
  by (simp add: matching_cascade_def cascade_loop.simps cascade_level_def mcm_eval)

section \<open>The levels of the cascade\<close>

lemma select_level_eq:
  "select_level tracks level track_indices acc =
     (if valid_indices track_indices tracks
      then Inr (acc @ filter (\<lambda>i. time_since_update (tracks ! nat i) = 1 + level) track_indices)
      else Inl OutOfRange)"
proof (induction track_indices arbitrary: acc)
  case Nil
  show ?case by (simp add: valid_indices_def)
next
  case (Cons i rest)
  show ?case
  proof (cases "0 \<le> i \<and> i < int (length tracks)")
    case True
    then have v: "valid_indices (i # rest) tracks = valid_indices rest tracks"
      by (simp add: valid_indices_def)
    show ?thesis using True by (simp add: at_int_def Cons.IH v)
  next
    case False
    then have v: "\<not> valid_indices (i # rest) tracks" by (auto simp: valid_indices_def)
    have "at_int tracks i = Inl OutOfRange" using False by (simp add: at_int_def)
    then show ?thesis using v by simp
  qed
qed

lemma erase_matched_fst: "fst (erase_matched matches_l ms track_indices) = ms @ matches_l"
  by (induction matches_l arbitrary: ms track_indices) auto

lemma erase_matched_mset:
  "mset (snd (erase_matched matches_l ms track_indices)) =
   mset track_indices - mset (map track_idx matches_l)"
proof (induction matches_l arbitrary: ms track_indices)
  case Nil
  show ?case by simp
next
  case (Cons m matches_l)
  have "mset (snd (erase_matched (m # matches_l) ms track_indices)) =
        mset (remove1 (track_idx m) track_indices) - mset (map track_idx matches_l)"
    by (simp add: Cons.IH)
  also have "\<dots> = mset track_indices - {#track_idx m#} - mset (map track_idx matches_l)"
    by simp
  also have "\<dots> = mset track_indices - mset (map track_idx (m # matches_l))"
    by (simp add: diff_diff_add)
  finally show ?case .
qed

lemma erase_matched_keeps:
  "i \<in> set track_indices \<Longrightarrow> i \<notin> track_idx ` set matches_l \<Longrightarrow>
   i \<in> set (snd (erase_matched matches_l ms track_indices))"
proof (induction matches_l arbitrary: ms track_indices)
  case Nil
  then show ?case by simp
next
  case (Cons m matches_l)
  have "i \<noteq> track_idx m" using Cons.prems(2) by auto
  then have "i \<in> set (remove1 (track_idx m) track_indices)" using Cons.prems(1) by simp
  moreover have "i \<notin> track_idx ` set matches_l" using Cons.prems(2) by auto
  ultimately show ?case using Cons.IH by simp
qed

lemma erase_matched_subset:
  "set (snd (erase_matched matches_l ms track_indices)) \<subseteq> set track_indices"
proof (induction matches_l arbitrary: ms track_indices)
  case Nil
  show ?case by simp
next
  case (Cons m matches_l)
  have "set (snd (erase_matched matches_l (ms @ [m]) (remove1 (track_idx m) track_indices)))
          \<subseteq> set (remove1 (track_idx m) track_indices)"
    by (rule Cons.IH)
  also have "\<dots> \<subseteq> set track_indices" by (rule set_remove1_subset)
  finally show ?case by simp
qed

lemma foldE_invariant:
  assumes step: "\<And>x s s'. x \<in> set xs \<Longrightarrow> P s \<Longrightarrow> f x s = Inr s' \<Longrightarrow> P s'"
    and init: "P s" and res: "foldE f xs s = Inr s'"
  shows "P s'"
  using assms
proof (induction xs arbitrary: s)
  case Nil
  then show ?case by simp
next
  case (Cons x xs)
  from Cons.prems(3) obtain s1 where s1: "f x s = Inr s1" and r: "foldE f xs s1 = Inr s'"
    by (auto split: sum.splits)
  have p1: "P s1" using Cons.prems(1)[of x s s1] Cons.prems(2) s1 by simp
  have step': "\<And>y t t'. y \<in> set xs \<Longrightarrow> P t \<Longrightarrow> f y t = Inr t' \<Longrightarrow> P t'"
  proof -
    fix y t t' assume "y \<in> set xs" and "P t" and "f y t = Inr t'"
    then show "P t'" using Cons.prems(1)[of y t t'] by simp
  qed
  show ?case by (rule Cons.IH[OF step' p1 r])
qed

lemma row_step_match_tracks:
  assumes "\<forall>m \<in> set (matches out). track_idx m \<in> set T"
    and "row_step md cm T D a row out = Inr out'"
  shows "\<forall>m \<in> set (matches out'). track_idx m \<in> set T"
proof (cases "at_nat T row")
  case (Inl e)
  then show ?thesis using assms(2) by (simp add: row_step_def Let_def split: if_splits)
next
  case (Inr t)
  then have t: "t \<in> set T" by (auto simp: at_nat_def split: if_splits)
  show ?thesis using assms Inr t
    by (auto simp: row_step_def Let_def split: if_splits sum.splits)
qed

lemma min_cost_matching_match_tracks:
  assumes "min_cost_matching solve distance_metric max_distance tracks detections out
             track_indices detection_indices = Inr r"
    and "matches out = []"
  shows "\<forall>m \<in> set (matches r). track_idx m \<in> set track_indices"
proof (cases "track_indices = [] \<or> detection_indices = []")
  case True
  then show ?thesis using assms by (auto simp: min_cost_matching_short_circuit)
next
  case False
  let ?cm = "array_min (distance_metric tracks detections track_indices detection_indices)
               (fadd_eps max_distance)"
  let ?a = "solve (cost_matrix_vec ?cm) (rows ?cm) (cols ?cm) (replicate (rows ?cm) 0)"
  let ?a' = "keep_first_zero False ?a"
  let ?init = "\<lparr>matches = [], unmatched_tracks = [],
             unmatched_detections = unassigned_detections ?a detection_indices\<rparr>"
  have "foldE (row_step max_distance ?cm track_indices detection_indices ?a')
          [0..<length ?a'] ?init = Inr r"
    using assms(1) False by (simp add: min_cost_matching_def Let_def fix_zeros_spec)
  then show ?thesis
    by (rule foldE_invariant[where P = "\<lambda>w. \<forall>m \<in> set (matches w). track_idx m \<in> set track_indices",
          rotated 2]) (auto dest: row_step_match_tracks)
qed

lemma array_min_dims [simp]: "rows (array_min m c) = rows m" "cols (array_min m c) = cols m"
  by (simp_all add: array_min_def)

lemma min_cost_matching_contract:
  assumes sc: "solver_contract solve"
    and r: "rows (distance_metric tracks detections track_indices detection_indices) = length track_indices"
    and c: "cols (distance_metric tracks detections track_indices detection_indices) = length detection_indices"
    and ne: "track_indices \<noteq> []" "detection_indices \<noteq> []"
  shows "\<exists>r. min_cost_matching solve distance_metric max_distance tracks detections out
               track_indices detection_indices = Inr r \<and>
             mset (output_tracks r) = mset track_indices \<and>
             mset (output_detections r) = mset detection_indices"
proof -
  define cm where "cm = array_min (distance_metric tracks detections track_indices detection_indices)
                          (fadd_eps max_distance)"
  define a where "a = solve (cost_matrix_vec cm) (rows cm) (cols cm) (replicate (rows cm) 0)"
  have rc: "rows cm = length track_indices" "cols cm = length detection_indices"
    using r c by (simp_all add: cm_def)
  have "1 \<le> rows cm \<and> 1 \<le> cols cm" using ne rc by (simp add: Suc_le_eq)
  then have va: "valid_assignment (rows cm) (cols cm) a"
    using sc unfolding solver_contract_def a_def by blast
  have d1: "rows cm \<le> length track_indices" and d2: "cols cm \<le> length detection_indices"
    using rc by simp_all
  have "\<exists>r. min_cost_matching solve distance_metric max_distance tracks detections out
               track_indices detection_indices = Inr r \<and>
             mset (output_tracks r) = mset (take (rows cm) track_indices) \<and>
             mset (output_detections r) = mset detection_indices"
    by (rule min_cost_matching_partition[where distance_metric = distance_metric and tracks = tracks
          and detections = detections and solve = solve and cm = cm and a = a,
          OF ne cm_def a_def va d1 d2])
  then show ?thesis using rc by simp
qed

lemma cascade_level_contract:
  assumes sc: "solver_contract solve"
    and mc: "metric_contract distance_metric tracks detections"
    and vi: "valid_indices track_indices tracks"
    and ud: "unmatched_detections out \<noteq> []"
  shows "\<exists>out' ti'. cascade_level solve distance_metric max_distance tracks detections level out
                        track_indices = Inr (out', ti') \<and>
           mset (map track_idx (matches out')) + mset ti' =
             mset (map track_idx (matches out)) + mset track_indices \<and>
           mset (output_detections out') = mset (output_detections out) \<and>
           set ti' \<subseteq> set track_indices"
proof -
  let ?sel = "filter (\<lambda>i. time_since_update (tracks ! nat i) = 1 + level) track_indices"
  have sel: "select_level tracks level track_indices [] = Inr ?sel"
    using vi by (simp add: select_level_eq)
  show ?thesis
  proof (cases "?sel = []")
    case True
    then show ?thesis using sel by (simp add: cascade_level_def)
  next
    case False
    let ?o = "\<lparr>matches = [], unmatched_tracks = [],
                unmatched_detections = unmatched_detections out\<rparr>"
    have rw: "rows (distance_metric tracks detections ?sel (unmatched_detections out)) = length ?sel"
      and cl: "cols (distance_metric tracks detections ?sel (unmatched_detections out)) =
               length (unmatched_detections out)"
      using mc by (simp_all add: metric_contract_def)
    obtain r where r: "min_cost_matching solve distance_metric max_distance tracks detections ?o
                         ?sel (unmatched_detections out) = Inr r"
      and rt: "mset (output_tracks r) = mset ?sel"
      and rd: "mset (output_detections r) = mset (unmatched_detections out)"
      using min_cost_matching_contract[where distance_metric = distance_metric and tracks = tracks
          and detections = detections and max_distance = max_distance and out = ?o,
          OF sc rw cl False ud] by blast
    let ?ti = "snd (erase_matched (matches r) (matches out) track_indices)"
    let ?out = "out\<lparr>matches := matches out @ matches r,
                     unmatched_detections := unmatched_detections r\<rparr>"
    have res: "cascade_level solve distance_metric max_distance tracks detections level out
                 track_indices = Inr (?out, ?ti)"
      using sel False r by (simp add: cascade_level_def case_prod_beta erase_matched_fst)
    have "mset (map track_idx (matches r)) \<subseteq># mset (output_tracks r)"
      by (simp add: output_tracks_def)
    also have "\<dots> = mset ?sel" by (rule rt)
    also have "\<dots> \<subseteq># mset track_indices" by simp
    finally have sub: "mset (map track_idx (matches r)) \<subseteq># mset track_indices" .
    have t: "mset (map track_idx (matches ?out)) + mset ?ti =
             mset (map track_idx (matches out)) + mset track_indices"
      using sub by (simp add: erase_matched_mset)
    have d: "mset (output_detections ?out) = mset (output_detections out)"
      using rd by (simp add: output_detections_def)
    have s: "set ?ti \<subseteq> set track_indices" by (rule erase_matched_subset)
    show ?thesis using res t d s by blast
  qed
qed

lemma valid_indices_subset:
  "set ti' \<subseteq> set ti \<Longrightarrow> valid_indices ti xs \<Longrightarrow> valid_indices ti' xs"
  by (auto simp: valid_indices_def)

lemma cascade_loop_contract:
  assumes sc: "solver_contract solve"
    and mc: "metric_contract distance_metric tracks detections"
  shows "valid_indices track_indices tracks \<Longrightarrow>
         \<exists>out' ti'. cascade_loop solve distance_metric max_distance cascade_depth tracks detections
                        level out track_indices = Inr (out', ti') \<and>
           mset (map track_idx (matches out')) + mset ti' =
             mset (map track_idx (matches out)) + mset track_indices \<and>
           mset (output_detections out') = mset (output_detections out)"
proof (induction "nat (cascade_depth - level)" arbitrary: level out track_indices rule: less_induct)
  case less
  note vi = less.prems
  show ?case
  proof (cases "level < cascade_depth")
    case False
    then show ?thesis by (subst cascade_loop.simps) simp
  next
    case True
    show ?thesis
    proof (cases "unmatched_detections out = []")
      case e: True
      then show ?thesis using True by (subst cascade_loop.simps) simp
    next
      case ne: False
      obtain o1 t1 where
        lv: "cascade_level solve distance_metric max_distance tracks detections level out
               track_indices = Inr (o1, t1)"
        and t: "mset (map track_idx (matches o1)) + mset t1 =
                  mset (map track_idx (matches out)) + mset track_indices"
        and d: "mset (output_detections o1) = mset (output_detections out)"
        and s: "set t1 \<subseteq> set track_indices"
        using cascade_level_contract[OF sc mc vi ne, of max_distance level] by blast
      have v1: "valid_indices t1 tracks" by (rule valid_indices_subset[OF s vi])
      have m: "nat (cascade_depth - (level + 1)) < nat (cascade_depth - level)"
        using True by simp
      obtain o2 t2 where
        lp: "cascade_loop solve distance_metric max_distance cascade_depth tracks detections
               (level + 1) o1 t1 = Inr (o2, t2)"
        and t2: "mset (map track_idx (matches o2)) + mset t2 =
                   mset (map track_idx (matches o1)) + mset t1"
        and d2: "mset (output_detections o2) = mset (output_detections o1)"
        using less.hyps[OF m v1, of o1] by blast
      have "cascade_loop solve distance_metric max_distance cascade_depth tracks detections
               level out track_indices = Inr (o2, t2)"
        using True ne lv lp by (subst cascade_loop.simps) simp
      then show ?thesis using t t2 d d2 by simp
    qed
  qed
qed

lemma cascade_level_keeps:
  assumes lv: "cascade_level solve distance_metric max_distance tracks detections level out
                 track_indices = Inr (out', ti')"
    and i: "i \<in> set track_indices"
    and ts: "time_since_update (tracks ! nat i) \<noteq> 1 + level"
  shows "i \<in> set ti'"
proof -
  let ?sel = "filter (\<lambda>i. time_since_update (tracks ! nat i) = 1 + level) track_indices"
  have sel: "select_level tracks level track_indices [] = Inr ?sel"
    using lv by (auto simp: cascade_level_def select_level_eq split: if_splits)
  show ?thesis
  proof (cases "?sel = []")
    case True
    then show ?thesis using lv sel i by (simp add: cascade_level_def)
  next
    case False
    let ?init = "\<lparr>matches = [], unmatched_tracks = [],
                unmatched_detections = unmatched_detections out\<rparr>"
    obtain r where r: "min_cost_matching solve distance_metric max_distance tracks detections ?init
                         ?sel (unmatched_detections out) = Inr r"
      using lv sel False by (auto simp: cascade_level_def split: sum.splits)
    have ti': "ti' = snd (erase_matched (matches r) (matches out) track_indices)"
      using lv sel False r by (simp add: cascade_level_def case_prod_beta)
    have "\<forall>m \<in> set (matches r). track_idx m \<in> set ?sel"
      by (rule min_cost_matching_match_tracks[OF r]) simp
    then have "i \<notin> track_idx ` set (matches r)" using ts by auto
    then show ?thesis unfolding ti' using i by (intro erase_matched_keeps)
  qed
qed

lemma cascade_loop_keeps:
  "cascade_loop solve distance_metric max_distance cascade_depth tracks detections
     level out track_indices = Inr (out', ti') \<Longrightarrow>
   0 \<le> level \<Longrightarrow> i \<in> set track_indices \<Longrightarrow>
   time_since_update (tracks ! nat i) < 1 \<or> cascade_depth < time_since_update (tracks ! nat i) \<Longrightarrow>
   i \<in> set ti'"
proof (induction "nat (cascade_depth - level)" arbitrary: level out track_indices rule: less_induct)
  case less
  note res = less.prems(1) and lv0 = less.prems(2) and i = less.prems(3) and ts = less.prems(4)
  show ?case
  proof (cases "level < cascade_depth \<and> unmatched_detections out \<noteq> []")
    case False
    then have "cascade_loop solve distance_metric max_distance cascade_depth tracks detections
                 level out track_indices = Inr (out, track_indices)"
      by (subst cascade_loop.simps) auto
    then show ?thesis using res i by simp
  next
    case True
    then obtain o1 t1 where
      lv: "cascade_level solve distance_metric max_distance tracks detections level out
             track_indices = Inr (o1, t1)"
      and lp: "cascade_loop solve distance_metric max_distance cascade_depth tracks detections
             (level + 1) o1 t1 = Inr (out', ti')"
      using res by (subst (asm) cascade_loop.simps) (auto split: sum.splits)
    have "time_since_update (tracks ! nat i) \<noteq> 1 + level" using ts lv0 True by auto
    then have i1: "i \<in> set t1" by (rule cascade_level_keeps[OF lv i])
    have m: "nat (cascade_depth - (level + 1)) < nat (cascade_depth - level)"
      using True by simp
    show ?thesis using less.hyps[OF m lp _ i1 ts] lv0 by simp
  qed
qed

lemma cascade_level_appends:
  "cascade_level solve distance_metric max_distance tracks detections level out track_indices =
     Inr (out', ti') \<Longrightarrow> \<exists>ms. matches out' = matches out @ ms"
  by (auto simp: cascade_level_def case_prod_beta erase_matched_fst split: sum.splits if_splits)

lemma cascade_loop_appends:
  "cascade_loop solve distance_metric max_distance cascade_depth tracks detections
     level out track_indices = Inr (out', ti') \<Longrightarrow> \<exists>ms. matches out' = matches out @ ms"
proof (induction "nat (cascade_depth - level)" arbitrary: level out track_indices rule: less_induct)
  case less
  note res = less.prems(1)
  show ?case
  proof (cases "level < cascade_depth \<and> unmatched_detections out \<noteq> []")
    case False
    then have "cascade_loop solve distance_metric max_distance cascade_depth tracks detections
                 level out track_indices = Inr (out, track_indices)"
      by (subst cascade_loop.simps) auto
    then show ?thesis using res by simp
  next
    case True
    then obtain o1 t1 where
      lv: "cascade_level solve distance_metric max_distance tracks detections level out
             track_indices = Inr (o1, t1)"
      and lp: "cascade_loop solve distance_metric max_distance cascade_depth tracks detections
             (level + 1) o1 t1 = Inr (out', ti')"
      using res by (subst (asm) cascade_loop.simps) (auto split: sum.splits)
    have m: "nat (cascade_depth - (level + 1)) < nat (cascade_depth - level)"
      using True by simp
    obtain ms1 where "matches o1 = matches out @ ms1" using cascade_level_appends[OF lv] by blast
    moreover obtain ms2 where "matches out' = matches o1 @ ms2" using less.hyps[OF m lp] by blast
    ultimately show ?thesis by simp
  qed
qed

section \<open>Completeness of the classification\<close>

lemma example_solver_contract: "solver_contract example_solver"
proof -
  have "valid_assignment N M (example_solver cv N M a)" for cv N M a
  proof -
    let ?f = "\<lambda>r. if r < M then int r else - 1"
    have "filter (\<lambda>c. 0 < c) (map ?f [0..<N]) = map ?f (filter (\<lambda>r. 0 < ?f r) [0..<N])"
      by (simp add: filter_map comp_def)
    also have "\<dots> = map int (filter (\<lambda>r. 0 < ?f r) [0..<N])"
      by (rule map_cong) (auto split: if_splits)
    finally have "distinct (filter (\<lambda>c. 0 < c) (map ?f [0..<N]))"
      by (simp add: distinct_map)
    then show ?thesis by (auto simp: valid_assignment_def example_solver_def)
  qed
  then show ?thesis by (simp add: solver_contract_def)
qed

lemma const_metric_contract: "metric_contract (const_metric c) tracks detections"
  by (simp add: metric_contract_def const_metric_def)

lemma mset_distinct: "mset xs = mset ys \<Longrightarrow> distinct ys \<Longrightarrow> distinct xs"
  using mset_eq_imp_distinct_iff by blast

lemma matching_cascade_contract:
  assumes sc: "solver_contract solve"
    and mc: "metric_contract distance_metric tracks detections"
    and vi: "valid_indices track_indices tracks"
    and em: "matches out = []"
  shows "\<exists>r. matching_cascade solve distance_metric max_distance cascade_depth tracks detections
               out track_indices detection_indices = Inr r \<and>
             mset (output_tracks r) = mset track_indices \<and>
             mset (output_detections r) = mset detection_indices"
proof -
  let ?o = "out\<lparr>unmatched_detections := detection_indices\<rparr>"
  obtain o1 t1 where
    lp: "cascade_loop solve distance_metric max_distance cascade_depth tracks detections 0 ?o
           track_indices = Inr (o1, t1)"
    and t: "mset (map track_idx (matches o1)) + mset t1 =
              mset (map track_idx (matches ?o)) + mset track_indices"
    and d: "mset (output_detections o1) = mset (output_detections ?o)"
    using cascade_loop_contract[OF sc mc vi, of max_distance cascade_depth 0 ?o] by blast
  let ?r = "o1\<lparr>unmatched_tracks := t1\<rparr>"
  have res: "matching_cascade solve distance_metric max_distance cascade_depth tracks detections
               out track_indices detection_indices = Inr ?r"
    using lp by (simp add: matching_cascade_def)
  have "mset (output_tracks ?r) = mset track_indices"
    using t em by (simp add: output_tracks_def)
  moreover have "mset (output_detections ?r) = mset detection_indices"
    using d em by (simp add: output_detections_def)
  ultimately show ?thesis using res by blast
qed

text \<open>
  When the solver and the metric meet their contracts and the index lists have no
  duplicates, a call of \<open>min_cost_matching\<close> returns and its output names every track
  index and every detection index exactly once; on the early return this needs
  \<^verbatim>\<open>*matches\<close> to be empty on entry, on the main path the vectors are cleared.
\<close>

lemma min_cost_matching_every_index_once:
  assumes sc: "solver_contract solve"
    and mc: "metric_contract distance_metric tracks detections"
    and dt: "distinct track_indices" and dd: "distinct detection_indices"
    and em: "track_indices = [] \<or> detection_indices = [] \<Longrightarrow> matches out = []"
  shows "\<exists>r. min_cost_matching solve distance_metric max_distance tracks detections out
               track_indices detection_indices = Inr r \<and>
             mset (output_tracks r) = mset track_indices \<and> distinct (output_tracks r) \<and>
             mset (output_detections r) = mset detection_indices \<and>
             distinct (output_detections r)"
proof -
  have "\<exists>r. min_cost_matching solve distance_metric max_distance tracks detections out
               track_indices detection_indices = Inr r \<and>
             mset (output_tracks r) = mset track_indices \<and>
             mset (output_detections r) = mset detection_indices"
  proof (cases "track_indices = [] \<or> detection_indices = []")
    case True
    then show ?thesis
      using em by (simp add: min_cost_matching_short_circuit output_tracks_def output_detections_def)
  next
    case False
    have r: "rows (distance_metric tracks detections track_indices detection_indices) =
             length track_indices"
      and c: "cols (distance_metric tracks detections track_indices detection_indices) =
             length detection_indices"
      using mc by (simp_all add: metric_contract_def)
    show ?thesis
      using False
      by (intro min_cost_matching_contract[where distance_metric = distance_metric
            and tracks = tracks and detections = detections, OF sc r c]) simp_all
  qed
  then show ?thesis using dt dd mset_distinct by blast
qed

text \<open>The same for \<open>matching_cascade\<close>, when every track index is a position of
  \<open>tracks\<close> and \<^verbatim>\<open>*matches\<close> is empty on entry.\<close>

lemma matching_cascade_every_index_once:
  assumes sc: "solver_contract solve"
    and mc: "metric_contract distance_metric tracks detections"
    and vi: "valid_indices track_indices tracks"
    and dt: "distinct track_indices" and dd: "distinct detection_indices"
    and em: "matches out = []"
  shows "\<exists>r. matching_cascade solve distance_metric max_distance cascade_depth tracks detections
               out track_indices detection_indices = Inr r \<and>
             mset (output_tracks r) = mset track_indices \<and> distinct (output_tracks r) \<and>
             mset (output_detections r) = mset detection_indices \<and>
             distinct (output_detections r)"
  using matching_cascade_contract[OF sc mc vi em, of max_distance cascade_depth detection_indices]
    dt dd mset_distinct by blast

text \<open>
  Claim C1.  Every index of the input lists is to appear exactly once across the matches
  and the unmatched list, for every call with unique index lists.  The code breaks this
  where it fails to clear \<^verbatim>\<open>*matches\<close>: in \<open>matching_cascade\<close>, and on the early
  return of \<open>min_cost_matching\<close>.  A pair the vector holds on entry is still there on
  return, so that track 0 is named twice by the output, and detection 5, which is not in
  the input, once.
\<close>

theorem stale_match_named_twice:
  "distinct [0 :: int] \<and> distinct ([] :: int list) \<and>
   matching_cascade example_solver (const_metric 0) 1 3
      [\<lparr>mean = (), cov = (), time_since_update = 1\<rparr>] ([] :: unit list)
      \<lparr>matches = [\<lparr>track_idx = 0, detection_idx = 5\<rparr>], unmatched_tracks = [],
       unmatched_detections = []\<rparr> [0] [] =
     Inr \<lparr>matches = [\<lparr>track_idx = 0, detection_idx = 5\<rparr>], unmatched_tracks = [0],
          unmatched_detections = []\<rparr> \<and>
   min_cost_matching example_solver (const_metric 0) 1
      [\<lparr>mean = (), cov = (), time_since_update = 1\<rparr>] ([] :: unit list)
      \<lparr>matches = [\<lparr>track_idx = 0, detection_idx = 5\<rparr>], unmatched_tracks = [],
       unmatched_detections = []\<rparr> [0] [] =
     Inr \<lparr>matches = [\<lparr>track_idx = 0, detection_idx = 5\<rparr>], unmatched_tracks = [0],
          unmatched_detections = []\<rparr> \<and>
   output_tracks \<lparr>matches = [\<lparr>track_idx = 0, detection_idx = 5\<rparr>], unmatched_tracks = [0],
          unmatched_detections = []\<rparr> = [0, 0] \<and>
   output_detections \<lparr>matches = [\<lparr>track_idx = 0, detection_idx = 5\<rparr>], unmatched_tracks = [0],
          unmatched_detections = []\<rparr> = [5]"
  by (simp add: matching_cascade_def cascade_loop.simps min_cost_matching_def
      output_tracks_def output_detections_def)

section \<open>Tracks outside the cascade\<close>

text \<open>The cascade only ever appends to \<^verbatim>\<open>*matches\<close>: what the vector held on
  entry is a prefix of what it holds on return.\<close>

lemma matching_cascade_appends:
  "matching_cascade solve distance_metric max_distance cascade_depth tracks detections out
     track_indices detection_indices = Inr r \<Longrightarrow> \<exists>ms. matches r = matches out @ ms"
proof -
  assume a: "matching_cascade solve distance_metric max_distance cascade_depth tracks detections out
     track_indices detection_indices = Inr r"
  then obtain o1 t1 where
    lp: "cascade_loop solve distance_metric max_distance cascade_depth tracks detections 0
           (out\<lparr>unmatched_detections := detection_indices\<rparr>) track_indices = Inr (o1, t1)"
    and r: "r = o1\<lparr>unmatched_tracks := t1\<rparr>"
    by (auto simp: matching_cascade_def split: sum.splits)
  show ?thesis using cascade_loop_appends[OF lp] r by simp
qed

text \<open>
  Claim C9.  Let \<open>i\<close> be an entry of \<open>track_indices\<close> whose track has a
  \<open>time_since_update\<close> below 1 or above \<open>cascade_depth\<close>.  Whatever the solver, the
  metric and the detections are, a call of \<open>matching_cascade\<close> that returns has \<open>i\<close>
  among its unmatched tracks; and the call does return when the solver and the metric
  meet their contracts and every track index is a position of \<open>tracks\<close>.
\<close>

theorem out_of_range_age_stays_unmatched:
  assumes i: "i \<in> set track_indices"
    and ts: "time_since_update (tracks ! nat i) < 1 \<or>
             cascade_depth < time_since_update (tracks ! nat i)"
  shows "(\<forall>r. matching_cascade solve distance_metric max_distance cascade_depth tracks detections
               out track_indices detection_indices = Inr r \<longrightarrow> i \<in> set (unmatched_tracks r)) \<and>
         (solver_contract solve \<and> metric_contract distance_metric tracks detections \<and>
          valid_indices track_indices tracks \<longrightarrow>
          (\<exists>r. matching_cascade solve distance_metric max_distance cascade_depth tracks detections
               out track_indices detection_indices = Inr r \<and> i \<in> set (unmatched_tracks r)))"
proof -
  have cond: "i \<in> set (unmatched_tracks r)"
    if a: "matching_cascade solve distance_metric max_distance cascade_depth tracks detections
               out track_indices detection_indices = Inr r" for r
  proof -
    from a obtain o1 t1 where
      lp: "cascade_loop solve distance_metric max_distance cascade_depth tracks detections 0
             (out\<lparr>unmatched_detections := detection_indices\<rparr>) track_indices = Inr (o1, t1)"
      and r: "r = o1\<lparr>unmatched_tracks := t1\<rparr>"
      by (auto simp: matching_cascade_def split: sum.splits)
    have "i \<in> set t1" using cascade_loop_keeps[OF lp _ i ts] by simp
    then show ?thesis using r by simp
  qed
  have ret: "\<exists>r. matching_cascade solve distance_metric max_distance cascade_depth tracks detections
               out track_indices detection_indices = Inr r"
    if sc: "solver_contract solve" and mc: "metric_contract distance_metric tracks detections"
      and vi: "valid_indices track_indices tracks"
  proof -
    obtain o1 t1 where
      "cascade_loop solve distance_metric max_distance cascade_depth tracks detections 0
             (out\<lparr>unmatched_detections := detection_indices\<rparr>) track_indices = Inr (o1, t1)"
      using cascade_loop_contract[OF sc mc vi, of max_distance cascade_depth 0
          "out\<lparr>unmatched_detections := detection_indices\<rparr>"] by blast
    then show ?thesis by (simp add: matching_cascade_def)
  qed
  show ?thesis using cond ret by blast
qed

theorem out_of_range_age_stays_unmatched_witness:
  "\<exists>r. matching_cascade example_solver (const_metric 0) 1 3
          [\<lparr>mean = (), cov = (), time_since_update = 4\<rparr>, \<lparr>mean = (), cov = (), time_since_update = 0\<rparr>]
          [()] \<lparr>matches = [], unmatched_tracks = [], unmatched_detections = []\<rparr> [0, 1] [0] = Inr r \<and>
        0 \<in> set (unmatched_tracks r) \<and> 1 \<in> set (unmatched_tracks r)"
proof -
  let ?tracks = "[\<lparr>mean = (), cov = (), time_since_update = 4\<rparr>, \<lparr>mean = (), cov = (), time_since_update = (0::int)\<rparr>]"
  let ?out = "\<lparr>matches = [], unmatched_tracks = [], unmatched_detections = []\<rparr>"
  have vi: "valid_indices [0, 1] ?tracks" by (simp add: valid_indices_def)
  have i0: "(0::int) \<in> set [0, 1]" and i1: "(1::int) \<in> set [0, 1]" by simp_all
  have t0: "time_since_update (?tracks ! nat 0) < 1 \<or> 3 < time_since_update (?tracks ! nat 0)"
    by simp
  have t1: "time_since_update (?tracks ! nat 1) < 1 \<or> 3 < time_since_update (?tracks ! nat 1)"
    by simp
  note w0 = out_of_range_age_stays_unmatched[where solve = example_solver
        and distance_metric = "const_metric 0" and tracks = ?tracks and detections = "[()]"
        and max_distance = 1 and cascade_depth = 3 and out = ?out and detection_indices = "[0]",
        OF i0 t0]
  note w1 = out_of_range_age_stays_unmatched[where solve = example_solver
        and distance_metric = "const_metric 0" and tracks = ?tracks and detections = "[()]"
        and max_distance = 1 and cascade_depth = 3 and out = ?out and detection_indices = "[0]",
        OF i1 t1]
  show ?thesis
    using w0 w1 example_solver_contract const_metric_contract[of 0 ?tracks "[()]"] vi by blast
qed

section \<open>Staging by age\<close>

lemma cascade_level_round:
  assumes vi: "valid_indices track_indices tracks"
  shows "cascade_level solve distance_metric max_distance tracks detections level out track_indices =
     (let track_indices_l =
            filter (\<lambda>i. time_since_update (tracks ! nat i) = level + 1) track_indices
      in if track_indices_l = [] then Inr (out, track_indices)
         else case min_cost_matching solve distance_metric max_distance tracks detections
                     \<lparr>matches = [], unmatched_tracks = [],
                      unmatched_detections = unmatched_detections out\<rparr>
                     track_indices_l (unmatched_detections out) of
                Inl e \<Rightarrow> Inl e
              | Inr out_l \<Rightarrow>
                  Inr (out\<lparr>matches := matches out @ matches out_l,
                           unmatched_detections := unmatched_detections out_l\<rparr>,
                       snd (erase_matched (matches out_l) (matches out) track_indices)))"
proof -
  have "(\<lambda>i. time_since_update (tracks ! nat i) = 1 + level) =
        (\<lambda>i. time_since_update (tracks ! nat i) = level + 1)"
    by (simp add: add.commute)
  then show ?thesis
    using vi
    by (simp add: cascade_level_def select_level_eq Let_def case_prod_beta erase_matched_fst
          split: sum.splits)
qed

lemma three_tracks_one_detection:
  assumes s11: "\<And>cv a. solve cv 1 1 a = [0]"
    and mc: "metric_contract distance_metric tracks [d]"
    and cost: "\<And>ti di i j. coeff (distance_metric tracks [d] ti di) i j = c"
    and le: "c \<le> max_distance"
    and depth: "1 \<le> cascade_depth"
    and tr: "tracks = [t1, t2, t3]"
    and ts: "time_since_update t1 = 1" "time_since_update t2 = 2" "time_since_update t3 = 3"
  shows "matching_cascade solve distance_metric max_distance cascade_depth tracks [d] out
           [0, 1, 2] [0] =
         Inr \<lparr>matches = matches out @ [\<lparr>track_idx = 0, detection_idx = 0\<rparr>],
              unmatched_tracks = [1, 2], unmatched_detections = []\<rparr>"
proof -
  let ?init = "\<lparr>matches = [], unmatched_tracks = [], unmatched_detections = [0]\<rparr>"
  let ?m = "distance_metric tracks [d] [0] [0]"
  let ?cm = "array_min ?m (fadd_eps max_distance)"
  have dims: "rows ?m = 1" "cols ?m = 1" using mc by (simp_all add: metric_contract_def)
  have nf: "\<not> max_distance < min c (fadd_eps max_distance)" using le by (simp add: min_def)
  have s11': "\<And>cv a. solve cv (Suc 0) (Suc 0) a = [0]" using s11 by simp
  have mcm: "min_cost_matching solve distance_metric max_distance tracks [d] ?init [0] [0] =
             Inr \<lparr>matches = [\<lparr>track_idx = 0, detection_idx = 0\<rparr>], unmatched_tracks = [],
                  unmatched_detections = []\<rparr>"
    using nf by (simp add: min_cost_matching_def Let_def dims s11' unassigned_detections_def
        fix_zeros_def row_step_def at_nat_def at_int_def coeff_at_def array_min_def cost)
  have vi: "valid_indices [0, 1, 2] tracks" by (simp add: valid_indices_def tr)
  have sel: "filter (\<lambda>i. time_since_update (tracks ! nat i) = 0 + 1) [0, 1, 2] = [0]"
    by (simp add: tr ts)
  let ?o0 = "out\<lparr>unmatched_detections := [0]\<rparr>"
  let ?o1 = "out\<lparr>matches := matches out @ [\<lparr>track_idx = 0, detection_idx = 0\<rparr>],
                  unmatched_detections := []\<rparr>"
  have lv: "cascade_level solve distance_metric max_distance tracks [d] 0 ?o0 [0, 1, 2] =
            Inr (?o1, [1, 2])"
    unfolding cascade_level_round[OF vi] Let_def sel by (simp add: mcm)
  have l1: "cascade_loop solve distance_metric max_distance cascade_depth tracks [d] (0 + 1) ?o1 [1, 2] =
            Inr (?o1, [1, 2])"
    by (subst cascade_loop.simps) simp
  have l0: "cascade_loop solve distance_metric max_distance cascade_depth tracks [d] 0 ?o0 [0, 1, 2] =
            Inr (?o1, [1, 2])"
    using depth lv l1 by (subst cascade_loop.simps) simp
  show ?thesis by (simp add: matching_cascade_def l0)
qed

text \<open>The loop of lines 158--186 against the rounds of the specification.\<close>

lemma min_cost_matching_ignores_outputs:
  "track_indices \<noteq> [] \<Longrightarrow> detection_indices \<noteq> [] \<Longrightarrow>
   min_cost_matching solve distance_metric max_distance tracks detections out
       track_indices detection_indices =
   min_cost_matching solve distance_metric max_distance tracks detections out'
       track_indices detection_indices"
  by (simp add: min_cost_matching_def)

lemma erase_matched_filter:
  "distinct track_indices \<Longrightarrow>
   snd (erase_matched matches_l ms track_indices) =
     filter (\<lambda>i. i \<notin> track_idx ` set matches_l) track_indices"
proof (induction matches_l arbitrary: ms track_indices)
  case Nil
  show ?case by simp
next
  case (Cons m matches_l)
  have r: "remove1 (track_idx m) track_indices = filter (\<lambda>i. i \<noteq> track_idx m) track_indices"
  proof -
    have "remove1 (track_idx m) track_indices = removeAll (track_idx m) track_indices"
      using Cons.prems by (rule distinct_remove1_removeAll)
    also have "\<dots> = filter (\<lambda>i. i \<noteq> track_idx m) track_indices"
      by (induction track_indices) auto
    finally show ?thesis .
  qed
  have d: "distinct (remove1 (track_idx m) track_indices)" using Cons.prems by simp
  have "snd (erase_matched (m # matches_l) ms track_indices) =
        filter (\<lambda>i. i \<notin> track_idx ` set matches_l) (remove1 (track_idx m) track_indices)"
    using Cons.IH[OF d] by simp
  also have "\<dots> = filter (\<lambda>i. i \<notin> track_idx ` set (m # matches_l)) track_indices"
    unfolding r by (auto intro: filter_cong)
  finally show ?case .
qed

lemma valid_indices_filter: "valid_indices xs ys \<Longrightarrow> valid_indices (filter P xs) ys"
  by (simp add: valid_indices_def)

lemma cascade_loop_rounds:
  "valid_indices track_indices tracks \<Longrightarrow> distinct track_indices \<Longrightarrow>
   cascade_loop solve distance_metric max_distance cascade_depth tracks detections level out
       track_indices =
     (case cascade_rounds solve distance_metric max_distance tracks detections
             [level..cascade_depth - 1] (matches out) track_indices (unmatched_detections out) of
        Inl e \<Rightarrow> Inl e
      | Inr (running, working, unmatched) \<Rightarrow>
          Inr (out\<lparr>matches := running, unmatched_detections := unmatched\<rparr>, working))"
proof (induction "nat (cascade_depth - level)" arbitrary: level out track_indices rule: less_induct)
  case less
  note vi = less.prems(1) and di = less.prems(2)
  show ?case
  proof (cases "level < cascade_depth")
    case False
    then have "[level..cascade_depth - 1] = []" by simp
    then show ?thesis using False by (subst cascade_loop.simps) simp
  next
    case True
    then have levels: "[level..cascade_depth - 1] = level # [level + 1..cascade_depth - 1]"
      by (simp add: upto_rec1)
    show ?thesis
    proof (cases "unmatched_detections out = []")
      case e: True
      then show ?thesis using True unfolding levels by (subst cascade_loop.simps) simp
    next
      case ne: False
      let ?sel = "filter (\<lambda>i. time_since_update (tracks ! nat i) = level + 1) track_indices"
      have m: "nat (cascade_depth - (level + 1)) < nat (cascade_depth - level)"
        using True by simp
      show ?thesis
      proof (cases "?sel = []")
        case s: True
        have lv: "cascade_level solve distance_metric max_distance tracks detections level out
                    track_indices = Inr (out, track_indices)"
          using s by (simp add: cascade_level_round[OF vi])
        have "cascade_loop solve distance_metric max_distance cascade_depth tracks detections
                level out track_indices =
              cascade_loop solve distance_metric max_distance cascade_depth tracks detections
                (level + 1) out track_indices"
          using True ne lv by (subst cascade_loop.simps) simp
        also have "\<dots> =
          (case cascade_rounds solve distance_metric max_distance tracks detections
             [level + 1..cascade_depth - 1] (matches out) track_indices (unmatched_detections out) of
             Inl e \<Rightarrow> Inl e
           | Inr (running, working, unmatched) \<Rightarrow>
               Inr (out\<lparr>matches := running, unmatched_detections := unmatched\<rparr>, working))"
          by (rule less.hyps[OF m vi di])
        finally show ?thesis unfolding levels using ne s by simp
      next
        case s: False
        let ?init = "\<lparr>matches = [], unmatched_tracks = [],
                      unmatched_detections = unmatched_detections out\<rparr>"
        let ?empty = "\<lparr>matches = [], unmatched_tracks = [], unmatched_detections = []\<rparr>"
        have same: "min_cost_matching solve distance_metric max_distance tracks detections ?init
                      ?sel (unmatched_detections out) =
                    min_cost_matching solve distance_metric max_distance tracks detections ?empty
                      ?sel (unmatched_detections out)"
          by (rule min_cost_matching_ignores_outputs[OF s ne])
        show ?thesis
        proof (cases "min_cost_matching solve distance_metric max_distance tracks detections ?empty
                        ?sel (unmatched_detections out)")
          case (Inl e)
          have lv: "cascade_level solve distance_metric max_distance tracks detections level out
                      track_indices = Inl e"
            using s Inl same by (simp add: cascade_level_round[OF vi])
          have "cascade_loop solve distance_metric max_distance cascade_depth tracks detections
                  level out track_indices = Inl e"
            using True ne lv by (subst cascade_loop.simps) simp
          then show ?thesis unfolding levels using ne s Inl by simp
        next
          case (Inr r)
          let ?w = "filter (\<lambda>i. i \<notin> track_idx ` set (matches r)) track_indices"
          let ?o = "out\<lparr>matches := matches out @ matches r,
                         unmatched_detections := unmatched_detections r\<rparr>"
          have lv: "cascade_level solve distance_metric max_distance tracks detections level out
                      track_indices = Inr (?o, ?w)"
            using s Inr same by (simp add: cascade_level_round[OF vi] erase_matched_filter[OF di])
          have vw: "valid_indices ?w tracks" by (rule valid_indices_filter[OF vi])
          have dw: "distinct ?w" using di by simp
          have "cascade_loop solve distance_metric max_distance cascade_depth tracks detections
                  level out track_indices =
                cascade_loop solve distance_metric max_distance cascade_depth tracks detections
                  (level + 1) ?o ?w"
            using True ne lv by (subst cascade_loop.simps) simp
          also have "\<dots> =
            (case cascade_rounds solve distance_metric max_distance tracks detections
               [level + 1..cascade_depth - 1] (matches ?o) ?w (unmatched_detections ?o) of
               Inl e \<Rightarrow> Inl e
             | Inr (running, working, unmatched) \<Rightarrow>
                 Inr (?o\<lparr>matches := running, unmatched_detections := unmatched\<rparr>, working))"
            by (rule less.hyps[OF m vw dw])
          finally show ?thesis unfolding levels using ne s Inr by (simp split: sum.splits)
        qed
      qed
    qed
  qed
qed

lemma matching_cascade_rounds:
  assumes vi: "valid_indices track_indices tracks" and di: "distinct track_indices"
  shows "matching_cascade solve distance_metric max_distance cascade_depth tracks detections out
           track_indices detection_indices =
     (case cascade_rounds solve distance_metric max_distance tracks detections
             [0..cascade_depth - 1] (matches out) track_indices detection_indices of
        Inl e \<Rightarrow> Inl e
      | Inr (running, working, unmatched) \<Rightarrow>
          Inr \<lparr>matches = running, unmatched_tracks = working, unmatched_detections = unmatched\<rparr>)"
  by (simp add: matching_cascade_def cascade_loop_rounds[OF vi di] split: sum.splits)

text \<open>
  Claim C3.  The round of level \<open>level\<close> is a call of \<open>min_cost_matching\<close> on
  exactly the entries of the working track list whose \<open>time_since_update\<close> is
  \<open>level + 1\<close>, against the detections still unmatched (no call when there is no such
  track); and \<open>matching_cascade\<close> is the sequence of these rounds for the levels
  \<open>0, \<dots>, cascade_depth - 1\<close>, each on the tracks the earlier rounds left, as
  \<open>cascade_rounds\<close> spells it out (the running total starts from what \<^verbatim>\<open>*matches\<close>
  holds on entry; the index list is free of duplicates, so that erasing the first
  occurrence of a matched track removes it).  Hence, for three tracks of ages 1, 2, 3 and one
  detection that every track matches at the same cost \<open>c \<le> max_distance\<close>, the track of
  age 1 is matched and the other two are returned unmatched.
\<close>

theorem cascade_staging:
  "(valid_indices track_indices tracks \<longrightarrow>
    cascade_level solve distance_metric max_distance tracks detections level out track_indices =
     (let track_indices_l =
            filter (\<lambda>i. time_since_update (tracks ! nat i) = level + 1) track_indices
      in if track_indices_l = [] then Inr (out, track_indices)
         else case min_cost_matching solve distance_metric max_distance tracks detections
                     \<lparr>matches = [], unmatched_tracks = [],
                      unmatched_detections = unmatched_detections out\<rparr>
                     track_indices_l (unmatched_detections out) of
                Inl e \<Rightarrow> Inl e
              | Inr out_l \<Rightarrow>
                  Inr (out\<lparr>matches := matches out @ matches out_l,
                           unmatched_detections := unmatched_detections out_l\<rparr>,
                       snd (erase_matched (matches out_l) (matches out) track_indices)))) \<and>
   (valid_indices track_indices tracks \<and> distinct track_indices \<longrightarrow>
    matching_cascade solve distance_metric max_distance depth tracks detections out
        track_indices detection_indices =
      (case cascade_rounds solve distance_metric max_distance tracks detections
              [0..depth - 1] (matches out) track_indices detection_indices of
         Inl e \<Rightarrow> Inl e
       | Inr (running, working, unmatched) \<Rightarrow>
           Inr \<lparr>matches = running, unmatched_tracks = working,
                unmatched_detections = unmatched\<rparr>)) \<and>
   ((\<forall>cv a. solve' cv 1 1 a = [0]) \<and>
    metric_contract metric' [t1, t2, t3] [d] \<and>
    (\<forall>ti di i j. coeff (metric' [t1, t2, t3] [d] ti di) i j = c) \<and>
    c \<le> max_distance' \<and> 1 \<le> cascade_depth \<and>
    time_since_update t1 = 1 \<and> time_since_update t2 = 2 \<and> time_since_update t3 = 3 \<longrightarrow>
    matching_cascade solve' metric' max_distance' cascade_depth [t1, t2, t3] [d] out'
        [0, 1, 2] [0] =
      Inr \<lparr>matches = matches out' @ [\<lparr>track_idx = 0, detection_idx = 0\<rparr>],
           unmatched_tracks = [1, 2], unmatched_detections = []\<rparr>)"
proof -
  have a: "cascade_level solve distance_metric max_distance tracks detections level out track_indices =
     (let track_indices_l =
            filter (\<lambda>i. time_since_update (tracks ! nat i) = level + 1) track_indices
      in if track_indices_l = [] then Inr (out, track_indices)
         else case min_cost_matching solve distance_metric max_distance tracks detections
                     \<lparr>matches = [], unmatched_tracks = [],
                      unmatched_detections = unmatched_detections out\<rparr>
                     track_indices_l (unmatched_detections out) of
                Inl e \<Rightarrow> Inl e
              | Inr out_l \<Rightarrow>
                  Inr (out\<lparr>matches := matches out @ matches out_l,
                           unmatched_detections := unmatched_detections out_l\<rparr>,
                       snd (erase_matched (matches out_l) (matches out) track_indices)))"
    if "valid_indices track_indices tracks"
    using that by (rule cascade_level_round)
  have b: "matching_cascade solve distance_metric max_distance depth tracks detections out
        track_indices detection_indices =
      (case cascade_rounds solve distance_metric max_distance tracks detections
              [0..depth - 1] (matches out) track_indices detection_indices of
         Inl e \<Rightarrow> Inl e
       | Inr (running, working, unmatched) \<Rightarrow>
           Inr \<lparr>matches = running, unmatched_tracks = working,
                unmatched_detections = unmatched\<rparr>)"
    if "valid_indices track_indices tracks \<and> distinct track_indices"
    using that by (intro matching_cascade_rounds) simp_all
  have c: "matching_cascade solve' metric' max_distance' cascade_depth [t1, t2, t3] [d] out'
        [0, 1, 2] [0] =
      Inr \<lparr>matches = matches out' @ [\<lparr>track_idx = 0, detection_idx = 0\<rparr>],
           unmatched_tracks = [1, 2], unmatched_detections = []\<rparr>"
    if h: "(\<forall>cv a. solve' cv 1 1 a = [0]) \<and>
    metric_contract metric' [t1, t2, t3] [d] \<and>
    (\<forall>ti di i j. coeff (metric' [t1, t2, t3] [d] ti di) i j = c) \<and>
    c \<le> max_distance' \<and> 1 \<le> cascade_depth \<and>
    time_since_update t1 = 1 \<and> time_since_update t2 = 2 \<and> time_since_update t3 = 3"
    using h
    by (intro three_tracks_one_detection[where distance_metric = metric' and c = c
          and ?t1.0 = t1 and ?t2.0 = t2 and ?t3.0 = t3]) simp_all
  show ?thesis using a b c by blast
qed

text \<open>Two tracks of ages 3 and 2 and one detection: the round of level 1 alone, the
  whole cascade (nothing happens at level 0, the track of age 2 is matched at level 1);
  and the three tracks of the claim.\<close>

theorem cascade_staging_witness:
  "cascade_level example_solver (const_metric (1 / 2)) 1
      [\<lparr>mean = (), cov = (), time_since_update = 3\<rparr>,
       \<lparr>mean = (), cov = (), time_since_update = 2\<rparr>] [()] 1
      \<lparr>matches = [], unmatched_tracks = [], unmatched_detections = [0]\<rparr> [0, 1] =
    Inr (\<lparr>matches = [\<lparr>track_idx = 1, detection_idx = 0\<rparr>], unmatched_tracks = [],
          unmatched_detections = []\<rparr>, [0]) \<and>
   matching_cascade example_solver (const_metric (1 / 2)) 1 3
      [\<lparr>mean = (), cov = (), time_since_update = 3\<rparr>,
       \<lparr>mean = (), cov = (), time_since_update = 2\<rparr>] [()]
      \<lparr>matches = [], unmatched_tracks = [], unmatched_detections = []\<rparr> [0, 1] [0] =
    Inr \<lparr>matches = [\<lparr>track_idx = 1, detection_idx = 0\<rparr>],
         unmatched_tracks = [0], unmatched_detections = []\<rparr> \<and>
   matching_cascade example_solver (const_metric (1 / 2)) 1 3
      [\<lparr>mean = (), cov = (), time_since_update = 1\<rparr>,
       \<lparr>mean = (), cov = (), time_since_update = 2\<rparr>,
       \<lparr>mean = (), cov = (), time_since_update = 3\<rparr>] [()]
      \<lparr>matches = [], unmatched_tracks = [], unmatched_detections = []\<rparr> [0, 1, 2] [0] =
    Inr \<lparr>matches = [\<lparr>track_idx = 0, detection_idx = 0\<rparr>],
         unmatched_tracks = [1, 2], unmatched_detections = []\<rparr>"
proof -
  let ?t1 = "\<lparr>mean = (), cov = (), time_since_update = 1\<rparr>"
  let ?t2 = "\<lparr>mean = (), cov = (), time_since_update = 2\<rparr>"
  let ?t3 = "\<lparr>mean = (), cov = (), time_since_update = 3\<rparr>"
  let ?out = "\<lparr>matches = [], unmatched_tracks = [], unmatched_detections = []\<rparr>"
  have vi: "valid_indices [0, 1] [?t3, ?t2] \<and> distinct [0, 1 :: int]"
    by (simp add: valid_indices_def)
  have r: "cascade_rounds example_solver (const_metric (1 / 2)) 1 [?t3, ?t2] [()] [0, 1, 2]
             [] [0, 1] [0] =
           Inr ([\<lparr>track_idx = 1, detection_idx = 0\<rparr>], [0], [])"
    by (simp add: mcm_eval Let_def)
  have eq: "matching_cascade example_solver (const_metric (1 / 2)) 1 3 [?t3, ?t2] [()] ?out
          [0, 1] [0] =
        (case cascade_rounds example_solver (const_metric (1 / 2)) 1 [?t3, ?t2] [()]
                [0..3 - 1] (matches ?out) [0, 1] [0] of
           Inl e \<Rightarrow> Inl e
         | Inr (running, working, unmatched) \<Rightarrow>
             Inr \<lparr>matches = running, unmatched_tracks = working,
                  unmatched_detections = unmatched\<rparr>)"
    using cascade_staging[where solve = example_solver
        and distance_metric = "const_metric (1 / 2)" and tracks = "[?t3, ?t2]"
        and detections = "[()]" and max_distance = 1 and depth = 3 and out = ?out
        and track_indices = "[0, 1]" and detection_indices = "[0]",
        THEN conjunct2, THEN conjunct1] vi
    by blast
  let ?out1 = "\<lparr>matches = [], unmatched_tracks = [], unmatched_detections = [0]\<rparr>"
  have "cascade_level example_solver (const_metric (1 / 2)) 1 [?t3, ?t2] [()] 1 ?out1 [0, 1] =
     (let track_indices_l =
            filter (\<lambda>i. time_since_update ([?t3, ?t2] ! nat i) = 1 + 1) [0, 1]
      in if track_indices_l = [] then Inr (?out1, [0, 1])
         else case min_cost_matching example_solver (const_metric (1 / 2)) 1 [?t3, ?t2] [()]
                     \<lparr>matches = [], unmatched_tracks = [],
                      unmatched_detections = unmatched_detections ?out1\<rparr>
                     track_indices_l (unmatched_detections ?out1) of
                Inl e \<Rightarrow> Inl e
              | Inr out_l \<Rightarrow>
                  Inr (?out1\<lparr>matches := matches ?out1 @ matches out_l,
                           unmatched_detections := unmatched_detections out_l\<rparr>,
                       snd (erase_matched (matches out_l) (matches ?out1) [0, 1])))"
    using cascade_staging[where solve = example_solver
        and distance_metric = "const_metric (1 / 2)" and tracks = "[?t3, ?t2]"
        and detections = "[()]" and max_distance = 1 and level = 1 and out = ?out1
        and track_indices = "[0, 1]", THEN conjunct1] vi
    by blast
  then have level: "cascade_level example_solver (const_metric (1 / 2)) 1 [?t3, ?t2] [()] 1 ?out1
        [0, 1] =
      Inr (\<lparr>matches = [\<lparr>track_idx = 1, detection_idx = 0\<rparr>], unmatched_tracks = [],
            unmatched_detections = []\<rparr>, [0])"
    by (simp add: mcm_eval Let_def)
  have lev: "[0..3 - 1] = [0, 1, 2 :: int]" by (simp add: upto_rec1)
  have mo: "matches ?out = []" by simp
  have first: "matching_cascade example_solver (const_metric (1 / 2)) 1 3 [?t3, ?t2] [()] ?out
          [0, 1] [0] =
        Inr \<lparr>matches = [\<lparr>track_idx = 1, detection_idx = 0\<rparr>],
             unmatched_tracks = [0], unmatched_detections = []\<rparr>"
    by (simp only: eq lev mo r sum.case prod.case)
  have s: "\<forall>cv a. example_solver cv 1 1 a = [0]" by (simp add: example_solver_def)
  have m: "metric_contract (const_metric (1 / 2)) [?t1, ?t2, ?t3] [()]"
    by (rule const_metric_contract)
  have c: "\<forall>ti di i j. coeff (const_metric (1 / 2) [?t1, ?t2, ?t3] [()] ti di) i j = 1 / 2"
    by (simp add: const_metric_def)
  have rest: "(1 / 2 :: rat) \<le> 1 \<and> (1 :: int) \<le> 3 \<and> time_since_update ?t1 = 1 \<and>
      time_since_update ?t2 = 2 \<and> time_since_update ?t3 = 3"
    by simp
  have "matching_cascade example_solver (const_metric (1 / 2)) 1 3 [?t1, ?t2, ?t3] [()] ?out
          [0, 1, 2] [0] =
        Inr \<lparr>matches = matches ?out @ [\<lparr>track_idx = 0, detection_idx = 0\<rparr>],
             unmatched_tracks = [1, 2], unmatched_detections = []\<rparr>"
    using cascade_staging[where solve' = example_solver and metric' = "const_metric (1 / 2)"
        and ?t1.0 = ?t1 and ?t2.0 = ?t2 and ?t3.0 = ?t3 and d = "()" and c = "1 / 2"
        and max_distance' = 1 and cascade_depth = 3 and out' = ?out,
        THEN conjunct2, THEN conjunct2]
      s m c rest by blast
  then show ?thesis using level first by simp
qed

section \<open>A matrix of the wrong size\<close>

text \<open>
  Claim C7, as amended.  \<open>min_cost_matching\<close> has no dimension check: \<open>N\<close> and \<open>M\<close>
  are read off the matrix the metric returned and handed to the solver.  When that
  matrix is not larger than the index lists (\<open>1 \<le> N \<le> length track_indices\<close>,
  \<open>1 \<le> M \<le> length detection_indices\<close>) the call returns normally with the
  classification of the solver's answer; its outputs then name the first \<open>N\<close> track
  indices and every detection index.
\<close>

theorem no_dimension_check:
  assumes sc: "solver_contract solve"
    and cm: "cm = array_min (distance_metric tracks detections track_indices detection_indices)
                    (fadd_eps max_distance)"
    and n1: "1 \<le> rows cm" "rows cm \<le> length track_indices"
    and m1: "1 \<le> cols cm" "cols cm \<le> length detection_indices"
  shows "\<exists>r. min_cost_matching solve distance_metric max_distance tracks detections out
               track_indices detection_indices = Inr r \<and>
             r = classify max_distance cm track_indices detection_indices
                   (keep_first_zero False
                      (solve (cost_matrix_vec cm) (rows cm) (cols cm) (replicate (rows cm) 0)))
                   (unassigned_detections
                      (solve (cost_matrix_vec cm) (rows cm) (cols cm) (replicate (rows cm) 0))
                      detection_indices) \<and>
             mset (output_tracks r) = mset (take (rows cm) track_indices) \<and>
             mset (output_detections r) = mset detection_indices"
proof -
  define a where "a = solve (cost_matrix_vec cm) (rows cm) (cols cm) (replicate (rows cm) 0)"
  have va: "valid_assignment (rows cm) (cols cm) a"
    using sc n1 m1 unfolding solver_contract_def a_def by simp
  have ne: "track_indices \<noteq> []" "detection_indices \<noteq> []" using n1 m1 by auto
  let ?r = "classify max_distance cm track_indices detection_indices (keep_first_zero False a)
              (unassigned_detections a detection_indices)"
  have e: "min_cost_matching solve distance_metric max_distance tracks detections out
               track_indices detection_indices = Inr ?r"
    by (rule min_cost_matching_classify[where distance_metric = distance_metric and tracks = tracks
          and detections = detections and solve = solve and cm = cm and a = a,
          OF ne cm a_def va n1(2) m1(2)])
  obtain r' where r': "min_cost_matching solve distance_metric max_distance tracks detections out
               track_indices detection_indices = Inr r'"
    and t: "mset (output_tracks r') = mset (take (rows cm) track_indices)"
    and d: "mset (output_detections r') = mset detection_indices"
    using min_cost_matching_partition[where distance_metric = distance_metric and tracks = tracks
          and detections = detections and solve = solve and cm = cm and a = a and out = out,
          OF ne cm a_def va n1(2) m1(2)] by blast
  have "r' = ?r" using e r' by simp
  then show ?thesis using e t d unfolding a_def by blast
qed

theorem no_dimension_check_witness:
  "\<exists>r. min_cost_matching example_solver short_metric 1 [(), ()] [()]
          \<lparr>matches = [], unmatched_tracks = [], unmatched_detections = []\<rparr> [4, 7] [9] = Inr r \<and>
        mset (output_tracks r) = mset [4] \<and> mset (output_detections r) = mset [9]"
proof -
  let ?cm = "array_min (short_metric [(), ()] [()] [4, 7] [9]) (fadd_eps 1)"
  have r: "rows ?cm = 1" and c: "cols ?cm = 1" by (simp_all add: short_metric_def)
  have n1: "1 \<le> rows ?cm" and n2: "rows ?cm \<le> length [4, 7 :: int]"
    and m1: "1 \<le> cols ?cm" and m2: "cols ?cm \<le> length [9 :: int]"
    unfolding r c by simp_all
  have "\<exists>r. min_cost_matching example_solver short_metric 1 [(), ()] [()]
          \<lparr>matches = [], unmatched_tracks = [], unmatched_detections = []\<rparr> [4, 7] [9] = Inr r \<and>
        mset (output_tracks r) = mset (take (rows ?cm) [4, 7]) \<and>
        mset (output_detections r) = mset [9]"
    using no_dimension_check[where solve = example_solver and distance_metric = short_metric
        and tracks = "[(), ()]" and detections = "[()]" and track_indices = "[4, 7]"
        and detection_indices = "[9]" and max_distance = 1 and cm = ?cm
        and out = "\<lparr>matches = [], unmatched_tracks = [], unmatched_detections = []\<rparr>",
        OF example_solver_contract refl n1 n2 m1 m2]
    by blast
  then show ?thesis unfolding r by simp
qed

text \<open>
  As stated the claim fails: a metric that returns a 1 x 1 matrix for two tracks and one
  detection is not rejected.  The solver is run, the three vectors are written, and
  track 7 is in none of them.
\<close>

theorem no_dimension_check_counterexample:
  "rows (short_metric [(), ()] [()] [4, 7] [9]) \<noteq> length [4, 7 :: int] \<and>
   min_cost_matching example_solver short_metric 1 [(), ()] [()]
       \<lparr>matches = [], unmatched_tracks = [], unmatched_detections = []\<rparr> [4, 7] [9] =
     Inr \<lparr>matches = [\<lparr>track_idx = 4, detection_idx = 9\<rparr>], unmatched_tracks = [],
          unmatched_detections = []\<rparr>"
  by (simp add: min_cost_matching_def short_metric_def example_solver_def array_min_def
      cost_matrix_vec_def unassigned_detections_def fix_zeros_def row_step_def at_nat_def
      at_int_def coeff_at_def Let_def min_def)

section \<open>Gating\<close>

lemma build_measurements_eq:
  "build_measurements to_xyah detections detection_indices =
     (if valid_indices detection_indices detections
      then Inr (measurements_of to_xyah detections detection_indices)
      else Inl OutOfRange)"
proof (induction detection_indices)
  case Nil
  show ?case by (simp add: valid_indices_def measurements_of_def)
next
  case (Cons i rest)
  show ?case
  proof (cases "0 \<le> i \<and> i < int (length detections)")
    case True
    then have v: "valid_indices (i # rest) detections = valid_indices rest detections"
      by (simp add: valid_indices_def)
    show ?thesis using True by (simp add: at_int_def Cons.IH v measurements_of_def)
  next
    case False
    then have v: "\<not> valid_indices (i # rest) detections" by (auto simp: valid_indices_def)
    have "at_int detections i = Inl OutOfRange" using False by (simp add: at_int_def)
    then show ?thesis using v by simp
  qed
qed

text \<open>The inner loop after \<open>n\<close> columns.\<close>

lemma gate_row_prefix:
  "n \<le> length gd \<Longrightarrow>
   foldE (\<lambda>j m. if gd ! j > threshold then set_coeff m i j gated_cost else Inr m) [0..<n] m =
     (if \<forall>j<n. threshold < gd ! j \<longrightarrow> i < rows m \<and> j < cols m
      then Inr (m\<lparr>coeff := (\<lambda>r c. if r = i \<and> c < n \<and> threshold < gd ! c then gated_cost
                                    else coeff m r c)\<rparr>)
      else Inl OutOfRange)"
proof -
  define step where
    "step = (\<lambda>j m. if gd ! j > threshold then set_coeff m i j gated_cost else Inr m)"
  define ok where
    "ok = (\<lambda>n. \<forall>j<n. threshold < gd ! j \<longrightarrow> i < rows m \<and> j < cols m)"
  define mn where
    "mn = (\<lambda>n. m\<lparr>coeff := (\<lambda>r c. if r = i \<and> c < n \<and> threshold < gd ! c then gated_cost
                                    else coeff m r c)\<rparr>)"
  have ok_Suc: "ok (Suc n) \<longleftrightarrow> ok n \<and> (threshold < gd ! n \<longrightarrow> i < rows m \<and> n < cols m)" for n
    by (auto simp: ok_def less_Suc_eq)
  have dims: "rows (mn n) = rows m" "cols (mn n) = cols m" for n
    by (simp_all add: mn_def)
  have keep: "mn (Suc n) = mn n" if "\<not> threshold < gd ! n" for n
    unfolding mn_def using that
    by (intro MatrixXf.equality) (auto simp: fun_eq_iff less_Suc_eq)
  have upd: "(mn n)\<lparr>coeff := (\<lambda>r c. if r = i \<and> c = n then gated_cost else coeff (mn n) r c)\<rparr> =
               mn (Suc n)" if "threshold < gd ! n" for n
    unfolding mn_def using that
    by (intro MatrixXf.equality) (auto simp: fun_eq_iff less_Suc_eq)
  have stepn: "step n (mn n) =
      (if threshold < gd ! n \<longrightarrow> i < rows m \<and> n < cols m then Inr (mn (Suc n)) else Inl OutOfRange)"
    for n
  proof (cases "threshold < gd ! n")
    case False
    then show ?thesis by (simp add: step_def keep)
  next
    case True
    then show ?thesis using upd[OF True] by (simp add: step_def set_coeff_def dims)
  qed
  have "foldE step [0..<n] m = (if ok n then Inr (mn n) else Inl OutOfRange)"
  proof (induction n)
    case 0
    show ?case by (simp add: ok_def mn_def)
  next
    case (Suc n)
    have "foldE step [0..<Suc n] m =
        (case foldE step [0..<n] m of Inl e \<Rightarrow> Inl e | Inr m' \<Rightarrow> step n m')"
      by (simp add: foldE_append split: sum.splits)
    also have "\<dots> = (if ok n then step n (mn n) else Inl OutOfRange)"
      by (simp add: Suc)
    also have "\<dots> = (if ok (Suc n) then Inr (mn (Suc n)) else Inl OutOfRange)"
      by (simp add: stepn ok_Suc)
    finally show ?case .
  qed
  then show ?thesis by (simp add: step_def ok_def mn_def)
qed

lemma gate_row_eq:
  "gate_row threshold gated_cost gd i m =
     (if \<forall>j<length gd. threshold < gd ! j \<longrightarrow> i < rows m \<and> j < cols m
      then Inr (m\<lparr>coeff := (\<lambda>r c. if r = i \<and> c < length gd \<and> threshold < gd ! c then gated_cost
                                    else coeff m r c)\<rparr>)
      else Inl OutOfRange)"
  unfolding gate_row_def by (rule gate_row_prefix[OF order_refl])

lemma valid_indices_nth:
  "valid_indices indices xs \<longleftrightarrow> (\<forall>i<length indices. 0 \<le> indices ! i \<and> indices ! i < int (length xs))"
  by (auto simp: valid_indices_def all_set_conv_all_nth)

lemma gate_rows_prefix:
  fixes kf :: "'m \<Rightarrow> 'c \<Rightarrow> cost list list \<Rightarrow> bool \<Rightarrow> cost list"
  shows "foldE (\<lambda>i m. case at_int tracks (track_indices ! i) of
                   Inl e \<Rightarrow> Inl e
                 | Inr track \<Rightarrow>
                     gate_row threshold gated_cost
                       (kf (mean track) (cov track) measurements only_position) i m)
       [0..<k] m =
     (if (\<forall>i<k. 0 \<le> track_indices ! i \<and> track_indices ! i < int (length tracks)) \<and>
         writes_in_bounds threshold
           (gating_distances kf tracks track_indices measurements only_position) k m
      then Inr (gated threshold gated_cost
                  (gating_distances kf tracks track_indices measurements only_position) k m)
      else Inl OutOfRange)"
proof -
  define gds where "gds = gating_distances kf tracks track_indices measurements only_position"
  define step where
    "step = (\<lambda>i m. case at_int tracks (track_indices ! i) of
                   Inl e \<Rightarrow> Inl e
                 | Inr track \<Rightarrow>
                     gate_row threshold gated_cost
                       (kf (mean track) (cov track) measurements only_position) i m)"
  define vi where
    "vi = (\<lambda>k. \<forall>i<k. 0 \<le> track_indices ! i \<and> track_indices ! i < int (length tracks))"
  define wb where "wb = (\<lambda>k. writes_in_bounds threshold gds k m)"
  define gk where "gk = (\<lambda>k. gated threshold gated_cost gds k m)"
  define rowok where
    "rowok = (\<lambda>k. \<forall>j<length (gds k). threshold < gds k ! j \<longrightarrow> k < rows m \<and> j < cols m)"
  have vi_Suc: "vi (Suc k) \<longleftrightarrow> vi k \<and> 0 \<le> track_indices ! k \<and> track_indices ! k < int (length tracks)"
    for k by (auto simp: vi_def less_Suc_eq)
  have wb_Suc: "wb (Suc k) \<longleftrightarrow> wb k \<and> rowok k" for k
    by (auto simp: wb_def rowok_def writes_in_bounds_def less_Suc_eq)
  have dims: "rows (gk k) = rows m" "cols (gk k) = cols m" for k
    by (simp_all add: gk_def gated_def)
  have upd: "(gk k)\<lparr>coeff := (\<lambda>r c. if r = k \<and> c < length (gds k) \<and> threshold < gds k ! c
                                    then gated_cost else coeff (gk k) r c)\<rparr> = gk (Suc k)" for k
    unfolding gk_def gated_def
    by (intro MatrixXf.equality) (auto simp: fun_eq_iff less_Suc_eq)
  have stepk: "step k (gk k) =
      (if 0 \<le> track_indices ! k \<and> track_indices ! k < int (length tracks) \<and> rowok k
       then Inr (gk (Suc k)) else Inl OutOfRange)" for k
  proof (cases "0 \<le> track_indices ! k \<and> track_indices ! k < int (length tracks)")
    case False
    then have "at_int tracks (track_indices ! k) = Inl OutOfRange" by (simp add: at_int_def)
    then show ?thesis using False by (auto simp: step_def)
  next
    case True
    then have a: "at_int tracks (track_indices ! k) = Inr (tracks ! nat (track_indices ! k))"
      by (simp add: at_int_def)
    have "step k (gk k) = gate_row threshold gated_cost (gds k) k (gk k)"
      by (simp add: step_def a gds_def gating_distances_def)
    also have "\<dots> = (if rowok k then Inr (gk (Suc k)) else Inl OutOfRange)"
      by (simp only: gate_row_eq dims upd rowok_def)
    finally show ?thesis using True by simp
  qed
  have "foldE step [0..<k] m = (if vi k \<and> wb k then Inr (gk k) else Inl OutOfRange)"
  proof (induction k)
    case 0
    have "gk 0 = m" unfolding gk_def gated_def by (intro MatrixXf.equality) simp_all
    then show ?case by (simp add: vi_def wb_def writes_in_bounds_def)
  next
    case (Suc k)
    have "foldE step [0..<Suc k] m =
        (case foldE step [0..<k] m of Inl e \<Rightarrow> Inl e | Inr m' \<Rightarrow> step k m')"
      by (simp add: foldE_append split: sum.splits)
    also have "\<dots> = (if vi k \<and> wb k then step k (gk k) else Inl OutOfRange)"
      by (simp add: Suc)
    also have "\<dots> = (if vi (Suc k) \<and> wb (Suc k) then Inr (gk (Suc k)) else Inl OutOfRange)"
      by (auto simp: stepk vi_Suc wb_Suc)
    finally show ?case .
  qed
  then show ?thesis by (simp add: step_def vi_def wb_def gk_def gds_def)
qed

lemma gate_cost_matrix_eq:
  fixes kf :: "'m \<Rightarrow> 'c \<Rightarrow> cost list list \<Rightarrow> bool \<Rightarrow> cost list"
  shows "gate_cost_matrix chi2inv95 to_xyah kf cost_matrix tracks detections track_indices
       detection_indices gated_cost only_position =
     (if valid_indices detection_indices detections \<and> valid_indices track_indices tracks \<and>
         writes_in_bounds (chi2inv95 (if only_position then 2 else 4))
           (gating_distances kf tracks track_indices
              (measurements_of to_xyah detections detection_indices) only_position)
           (length track_indices) cost_matrix
      then Inr (gated (chi2inv95 (if only_position then 2 else 4)) gated_cost
                  (gating_distances kf tracks track_indices
                     (measurements_of to_xyah detections detection_indices) only_position)
                  (length track_indices) cost_matrix)
      else Inl OutOfRange)"
proof (cases "valid_indices detection_indices detections")
  case False
  then show ?thesis by (simp add: gate_cost_matrix_def build_measurements_eq)
next
  case True
  then show ?thesis
    by (simp only: gate_cost_matrix_def Let_def build_measurements_eq gate_rows_prefix
          valid_indices_nth[of track_indices] if_True sum.case simp_thms)
qed

lemma writes_in_bounds_sufficient:
  assumes kfc: "\<forall>me co ms op. length (kf me co ms op) = length ms"
    and dims: "length track_indices \<le> rows m" "length detection_indices \<le> cols m"
  shows "writes_in_bounds threshold
           (gating_distances kf tracks track_indices
              (measurements_of to_xyah detections detection_indices) only_position)
           (length track_indices) m"
  using assms by (auto simp: writes_in_bounds_def gating_distances_def measurements_of_def)

text \<open>
  Claim C4.  In the matrix that \<open>gate_cost_matrix\<close> returns, the entry \<open>(i, j)\<close> is
  \<open>gated_cost\<close> when the gating distance \<open>j\<close> of row \<open>i\<close> is strictly greater than
  the threshold \<open>chi2inv95[2]\<close> (only the position) or \<open>chi2inv95[4]\<close>, and is the
  entry of the input matrix otherwise, a distance equal to the threshold included; the
  dimensions are unchanged.  The function returns when the indices are valid, the filter
  gives one distance per detection index and the matrix is large enough.
\<close>

theorem gate_cost_matrix_threshold:
  fixes kf :: "'m \<Rightarrow> 'c \<Rightarrow> cost list list \<Rightarrow> bool \<Rightarrow> cost list"
  shows "(\<forall>m'. gate_cost_matrix chi2inv95 to_xyah kf cost_matrix tracks detections track_indices
             detection_indices gated_cost only_position = Inr m' \<longrightarrow>
           rows m' = rows cost_matrix \<and> cols m' = cols cost_matrix \<and>
           (\<forall>i j. coeff m' i j =
              (if i < length track_indices \<and>
                  j < length (gating_distances kf tracks track_indices
                        (measurements_of to_xyah detections detection_indices) only_position i) \<and>
                  chi2inv95 (if only_position then 2 else 4) <
                    gating_distances kf tracks track_indices
                        (measurements_of to_xyah detections detection_indices) only_position i ! j
               then gated_cost else coeff cost_matrix i j))) \<and>
         (valid_indices detection_indices detections \<and> valid_indices track_indices tracks \<and>
          (\<forall>me co ms op. length (kf me co ms op) = length ms) \<and>
          length track_indices \<le> rows cost_matrix \<and> length detection_indices \<le> cols cost_matrix \<longrightarrow>
          (\<exists>m'. gate_cost_matrix chi2inv95 to_xyah kf cost_matrix tracks detections track_indices
             detection_indices gated_cost only_position = Inr m'))"
proof -
  let ?thr = "chi2inv95 (if only_position then 2 else 4)"
  let ?gds = "gating_distances kf tracks track_indices
                 (measurements_of to_xyah detections detection_indices) only_position"
  let ?g = "gated ?thr gated_cost ?gds (length track_indices) cost_matrix"
  have a: "rows m' = rows cost_matrix \<and> cols m' = cols cost_matrix \<and>
           (\<forall>i j. coeff m' i j =
              (if i < length track_indices \<and> j < length (?gds i) \<and> ?thr < ?gds i ! j
               then gated_cost else coeff cost_matrix i j))"
    if r: "gate_cost_matrix chi2inv95 to_xyah kf cost_matrix tracks detections track_indices
             detection_indices gated_cost only_position = Inr m'" for m'
  proof -
    have m': "m' = ?g" using r by (simp add: gate_cost_matrix_eq split: if_splits)
    show ?thesis by (simp add: m' gated_def)
  qed
  have b: "\<exists>m'. gate_cost_matrix chi2inv95 to_xyah kf cost_matrix tracks detections track_indices
             detection_indices gated_cost only_position = Inr m'"
    if h: "valid_indices detection_indices detections \<and> valid_indices track_indices tracks \<and>
          (\<forall>me co ms op. length (kf me co ms op) = length ms) \<and>
          length track_indices \<le> rows cost_matrix \<and> length detection_indices \<le> cols cost_matrix"
  proof -
    have "writes_in_bounds ?thr ?gds (length track_indices) cost_matrix"
      using h by (intro writes_in_bounds_sufficient) simp_all
    then show ?thesis using h by (simp add: gate_cost_matrix_eq)
  qed
  show ?thesis using a b by blast
qed

theorem gate_cost_matrix_threshold_witness:
  "\<exists>m'. gate_cost_matrix example_chi2inv95 (\<lambda>d. d) example_gating_distance
           \<lparr>rows = 1, cols = 2, coeff = (\<lambda>i j. 1 / 2)\<rparr>
           [\<lparr>mean = 0, cov = (), time_since_update = 1\<rparr>]
           [[94877 / 10000, 0, 0, 0], [10, 0, 0, 0]] [0] [0, 1] 100000 False = Inr m' \<and>
         coeff m' 0 0 = 1 / 2 \<and> coeff m' 0 1 = 100000"
proof -
  let ?m = "\<lparr>rows = 1, cols = 2, coeff = (\<lambda>i j. 1 / 2 :: cost)\<rparr>"
  let ?tracks = "[\<lparr>mean = 0 :: cost, cov = (), time_since_update = 1\<rparr>]"
  let ?dets = "[[94877 / 10000, 0, 0, 0], [10, 0, 0, 0 :: cost]]"
  let ?gds = "gating_distances example_gating_distance ?tracks [0]
                (measurements_of (\<lambda>d. d) ?dets [0, 1]) False"
  have vd: "valid_indices [0, 1] ?dets" and vt: "valid_indices [0] ?tracks"
    by (simp_all add: valid_indices_def)
  have kfc: "\<forall>me co ms op. length (example_gating_distance me co ms op) = length ms"
    by (simp add: example_gating_distance_def)
  have dims: "length [0 :: int] \<le> rows ?m" "length [0, 1 :: int] \<le> cols ?m" by simp_all
  note t = gate_cost_matrix_threshold[where ?chi2inv95.0 = example_chi2inv95 and to_xyah = "\<lambda>d. d"
      and kf = example_gating_distance and cost_matrix = ?m and tracks = ?tracks
      and detections = ?dets and track_indices = "[0]" and detection_indices = "[0, 1]"
      and gated_cost = 100000 and only_position = False]
  from t vd vt kfc dims obtain m' where
    r: "gate_cost_matrix example_chi2inv95 (\<lambda>d. d) example_gating_distance ?m ?tracks ?dets
          [0] [0, 1] 100000 False = Inr m'"
    by blast
  from t r have c: "\<And>i j. coeff m' i j =
      (if i < length [0 :: int] \<and> j < length (?gds i) \<and>
          example_chi2inv95 (if False then 2 else 4) < ?gds i ! j
       then 100000 else coeff ?m i j)"
    by blast
  have g: "?gds 0 = [94877 / 10000, 10]"
    by (simp add: gating_distances_def measurements_of_def example_gating_distance_def)
  have "coeff m' 0 0 = 1 / 2" by (simp add: c g example_chi2inv95_def)
  moreover have "coeff m' 0 1 = 100000" by (simp add: c g example_chi2inv95_def)
  ultimately show ?thesis using r by blast
qed

text \<open>
  Claim C10, as amended.  \<open>gate_cost_matrix\<close> checks no bound.  All its accesses are in
  range exactly when every detection index and every track index is a valid position
  and every entry \<open>(i, j)\<close> whose gating distance exceeds the threshold lies inside the
  matrix: only those entries are written.  This holds in particular when the indices are
  valid, the filter returns one distance per detection index, and the matrix has at
  least \<open>length track_indices\<close> rows and \<open>length detection_indices\<close> columns.
\<close>

theorem gate_in_bounds:
  fixes kf :: "'m \<Rightarrow> 'c \<Rightarrow> cost list list \<Rightarrow> bool \<Rightarrow> cost list"
  shows "((\<exists>m'. gate_cost_matrix chi2inv95 to_xyah kf cost_matrix tracks detections track_indices
              detection_indices gated_cost only_position = Inr m') \<longleftrightarrow>
          valid_indices detection_indices detections \<and> valid_indices track_indices tracks \<and>
          writes_in_bounds (chi2inv95 (if only_position then 2 else 4))
            (gating_distances kf tracks track_indices
               (measurements_of to_xyah detections detection_indices) only_position)
            (length track_indices) cost_matrix) \<and>
         (valid_indices detection_indices detections \<and> valid_indices track_indices tracks \<and>
          (\<forall>me co ms op. length (kf me co ms op) = length ms) \<and>
          length track_indices \<le> rows cost_matrix \<and> length detection_indices \<le> cols cost_matrix \<longrightarrow>
          (\<exists>m'. gate_cost_matrix chi2inv95 to_xyah kf cost_matrix tracks detections track_indices
              detection_indices gated_cost only_position = Inr m'))"
proof -
  let ?thr = "chi2inv95 (if only_position then 2 else 4)"
  let ?gds = "gating_distances kf tracks track_indices
                 (measurements_of to_xyah detections detection_indices) only_position"
  have a: "(\<exists>m'. gate_cost_matrix chi2inv95 to_xyah kf cost_matrix tracks detections track_indices
              detection_indices gated_cost only_position = Inr m') \<longleftrightarrow>
          valid_indices detection_indices detections \<and> valid_indices track_indices tracks \<and>
          writes_in_bounds ?thr ?gds (length track_indices) cost_matrix"
    by (simp add: gate_cost_matrix_eq)
  have b: "writes_in_bounds ?thr ?gds (length track_indices) cost_matrix"
    if "\<forall>me co ms op. length (kf me co ms op) = length ms"
      and "length track_indices \<le> rows cost_matrix" and "length detection_indices \<le> cols cost_matrix"
    using that by (intro writes_in_bounds_sufficient) simp_all
  show ?thesis using a b by blast
qed

theorem gate_in_bounds_witness:
  "\<exists>m'. gate_cost_matrix example_chi2inv95 (\<lambda>d. d) example_gating_distance
           \<lparr>rows = 1, cols = 2, coeff = (\<lambda>i j. 1 / 2)\<rparr>
           [\<lparr>mean = 0, cov = (), time_since_update = 1\<rparr>]
           [[94877 / 10000, 0, 0, 0], [10, 0, 0, 0]] [0] [0, 1] 100000 True = Inr m'"
proof -
  let ?m = "\<lparr>rows = 1, cols = 2, coeff = (\<lambda>i j. 1 / 2 :: cost)\<rparr>"
  let ?tracks = "[\<lparr>mean = 0 :: cost, cov = (), time_since_update = 1\<rparr>]"
  let ?dets = "[[94877 / 10000, 0, 0, 0], [10, 0, 0, 0 :: cost]]"
  have vd: "valid_indices [0, 1] ?dets" and vt: "valid_indices [0] ?tracks"
    by (simp_all add: valid_indices_def)
  have kfc: "\<forall>me co ms op. length (example_gating_distance me co ms op) = length ms"
    by (simp add: example_gating_distance_def)
  have dims: "length [0 :: int] \<le> rows ?m" "length [0, 1 :: int] \<le> cols ?m" by simp_all
  show ?thesis
    using gate_in_bounds[where ?chi2inv95.0 = example_chi2inv95 and to_xyah = "\<lambda>d. d"
      and kf = example_gating_distance and cost_matrix = ?m and tracks = ?tracks
      and detections = ?dets and track_indices = "[0]" and detection_indices = "[0, 1]"
      and gated_cost = 100000 and only_position = True] vd vt kfc dims
    by blast
qed

text \<open>
  The size of the matrix is not necessary, as the claim has it: with no distance above
  the threshold nothing is written, and a matrix without rows is returned as it is for
  one track and one detection.
\<close>

theorem gate_in_bounds_counterexample:
  "gate_cost_matrix example_chi2inv95 (\<lambda>d. d) example_gating_distance
       \<lparr>rows = 0, cols = 0, coeff = (\<lambda>i j. 0)\<rparr>
       [\<lparr>mean = 0, cov = (), time_since_update = 1\<rparr>] [[1, 0, 0, 0]] [0] [0] 100000 False =
     Inr \<lparr>rows = 0, cols = 0, coeff = (\<lambda>i j. 0)\<rparr> \<and>
   \<not> (length [0 :: int] \<le> rows \<lparr>rows = 0, cols = 0, coeff = (\<lambda>i j. 0)\<rparr>)"
  by (simp add: gate_cost_matrix_def gate_row_def at_int_def example_chi2inv95_def
      example_gating_distance_def)

end
